theory Spec2Isabelle
  imports Main
begin

section \<open>The document tree\<close>

text \<open>
  The editor's document is a tree of typed nodes. A node has a type name, an attribute
  object and a content fragment (the list of its children); a text node has no children
  and is never empty, so it is kept as its first character and the rest (a leaf such as
  a hard break takes one position and is no table node, like a text of one character).
  The commands of
  \<^verbatim>\<open>CustomTableExtension.tsx\<close> compare \<^verbatim>\<open>node.type.name\<close> with
  \<^verbatim>\<open>"table"\<close>, \<^verbatim>\<open>"tableRow"\<close>, \<^verbatim>\<open>"tableCell"\<close> and
  \<^verbatim>\<open>"tableHeaderCell"\<close>; the other names stand for the remaining block nodes.
\<close>

datatype ntype = Paragraph | Blockquote | Table | TableRow | TableCell | TableHeaderCell

text \<open>
  The attribute object, with the keys the commands read or write. \<^verbatim>\<open>string | null\<close>
  is \<open>string option\<close>; \<^verbatim>\<open>alternateColor\<close> is the string-valued flag
  \<^verbatim>\<open>"true"\<close>/\<^verbatim>\<open>"false"\<close>.
\<close>

record attrs =
  border :: "string option"
  borderColor :: "string option"
  background :: "string option"
  highlight :: bool
  alternateColor :: string
  colspan :: nat
  rowspan :: nat
  colwidth :: "nat list option"

datatype node =
    Node (typeOf: ntype) (attrsOf: attrs) (contentOf: "node list")
  | Text char string

type_synonym document = "node list"

datatype error = TypeError | RangeError | Diverges

subsection \<open>Sizes and positions\<close>

text \<open>
  A text node takes one position per character; any other node takes one position for
  its opening, its content, and one for its closing. A document is the content of the
  top node, whose first position is 0.
\<close>

fun fragSize :: "node list \<Rightarrow> nat" where
  "fragSize [] = 0"
| "fragSize (Text c s # ns) = Suc (length s) + fragSize ns"
| "fragSize (Node t a cs # ns) = 2 + fragSize cs + fragSize ns"

definition nodeSize :: "node \<Rightarrow> nat" where
  "nodeSize n = fragSize [n]"

text \<open>
  \<^verbatim>\<open>doc.descendants(f)\<close> calls \<^verbatim>\<open>f(node, pos)\<close> on every descendant in document
  order, parents before their children; \<open>descendants ns p\<close> is the sequence of those
  calls for a fragment that starts at position \<open>p\<close>.
\<close>

fun descendants :: "node list \<Rightarrow> nat \<Rightarrow> (node \<times> nat) list" where
  "descendants [] p = []"
| "descendants (Text c s # ns) p = (Text c s, p) # descendants ns (p + Suc (length s))"
| "descendants (Node t a cs # ns) p =
     (Node t a cs, p) # descendants cs (p + 1) @ descendants ns (p + 2 + fragSize cs)"

text \<open>
  \<^verbatim>\<open>nodeAt(pos)\<close>: the node directly after the position, or the text node the
  position lies in; \<open>None\<close> is the library's \<^verbatim>\<open>null\<close>.
\<close>

fun nodeAt :: "node list \<Rightarrow> nat \<Rightarrow> node option" where
  "nodeAt [] p = None"
| "nodeAt (Text c s # ns) p =
     (if p < Suc (length s) then Some (Text c s) else nodeAt ns (p - Suc (length s)))"
| "nodeAt (Node t a cs # ns) p =
     (if p = 0 then Some (Node t a cs)
      else if p < 2 + fragSize cs then nodeAt cs (p - 1)
      else nodeAt ns (p - (2 + fragSize cs)))"

text \<open>
  \<^verbatim>\<open>tr.setNodeMarkup(pos, undefined, attrs)\<close> keeps the type and the content of the
  node at \<open>pos\<close> and replaces its attributes. The library throws a
  \<^verbatim>\<open>RangeError\<close> when no node starts there (\<open>None\<close>).
\<close>

fun setNodeMarkup :: "node list \<Rightarrow> nat \<Rightarrow> attrs \<Rightarrow> node list option" where
  "setNodeMarkup [] p b = None"
| "setNodeMarkup (Text c s # ns) p b =
     (if p < Suc (length s) then None
      else map_option ((#) (Text c s)) (setNodeMarkup ns (p - Suc (length s)) b))"
| "setNodeMarkup (Node t a cs # ns) p b =
     (if p = 0 then Some (Node t b cs # ns)
      else if p < 2 + fragSize cs
        then map_option (\<lambda>cs'. Node t a cs' # ns) (setNodeMarkup cs (p - 1) b)
      else map_option ((#) (Node t a cs)) (setNodeMarkup ns (p - (2 + fragSize cs)) b))"

text \<open>
  \<^verbatim>\<open>findParentNodeOfType({selection, types})\<close> resolves \<^verbatim>\<open>selection.$from\<close> and
  walks up from the innermost node around it; it returns the closest ancestor of the
  given type with the position before it, or \<^verbatim>\<open>undefined\<close>. A position is inside a
  node when it lies strictly between the node's start and its end. \<open>p0\<close> is the
  position of the fragment's start, \<open>p\<close> the position looked for, relative to it.
\<close>

fun findParentNodeOfType :: "ntype \<Rightarrow> node list \<Rightarrow> nat \<Rightarrow> nat \<Rightarrow> (nat \<times> node) option" where
  "findParentNodeOfType ty [] p0 p = None"
| "findParentNodeOfType ty (Text c s # ns) p0 p =
     (if p < Suc (length s) then None
      else findParentNodeOfType ty ns (p0 + Suc (length s)) (p - Suc (length s)))"
| "findParentNodeOfType ty (Node t a cs # ns) p0 p =
     (if p = 0 then None
      else if p < 2 + fragSize cs then
        (case findParentNodeOfType ty cs (p0 + 1) (p - 1) of
           Some r \<Rightarrow> Some r
         | None \<Rightarrow> if t = ty then Some (p0, Node t a cs) else None)
      else findParentNodeOfType ty ns (p0 + 2 + fragSize cs) (p - (2 + fragSize cs)))"

subsection \<open>Selections and transactions\<close>

text \<open>
  A selection is a cell selection, which enumerates the positions of its cells
  (\<^verbatim>\<open>forEachCell\<close>), or any other selection; both have a lower bound
  \<^verbatim>\<open>selection.from\<close>.
\<close>

datatype selection = CellSelection nat "nat list" | TextSelection nat

fun selFrom :: "selection \<Rightarrow> nat" where
  "selFrom (CellSelection f ps) = f"
| "selFrom (TextSelection f) = f"

text \<open>
  A transaction holds the document as rewritten so far, the selection, and the
  insertions made so far (position and size, oldest first), through which
  \<^verbatim>\<open>tr.mapping.map\<close> moves a position of the old document. A
  \<^verbatim>\<open>setNodeMarkup\<close> step moves no position.
\<close>

record transaction =
  doc :: document
  selection :: selection
  mapping :: "(nat \<times> nat) list"

section \<open>The commands of the table extension\<close>

text \<open>
  A command receives the transaction \<^verbatim>\<open>tr\<close> of its props and returns a boolean; the
  model returns the boolean with the transaction it has dispatched (the unchanged one
  when it dispatched none), or the error it has thrown.
\<close>

fun forEachM :: "('s \<Rightarrow> 'x \<Rightarrow> error + 's) \<Rightarrow> 's \<Rightarrow> 'x list \<Rightarrow> error + 's" where
  "forEachM f s [] = Inr s"
| "forEachM f s (x # xs) = (case f s x of Inl e \<Rightarrow> Inl e | Inr s' \<Rightarrow> forEachM f s' xs)"

text \<open>
  One call of the function given to \<^verbatim>\<open>selection.forEachCell\<close>: the cell node is read
  from the selection's document \<open>sd\<close>, and the transaction's document \<open>d\<close> is
  rewritten at the cell's position with \<^verbatim>\<open>{...cellNode.attrs, ...}\<close>.
\<close>

fun cellMarkup :: "(attrs \<Rightarrow> attrs) \<Rightarrow> document \<Rightarrow> document \<Rightarrow> nat \<Rightarrow> error + document" where
  "cellMarkup upd sd d pos =
     (case nodeAt sd pos of
        None \<Rightarrow> Inl TypeError
      | Some (Text c s) \<Rightarrow> Inl RangeError
      | Some (Node t a cs) \<Rightarrow>
          (case setNodeMarkup d pos (upd a) of None \<Rightarrow> Inl RangeError | Some d' \<Rightarrow> Inr d'))"

text \<open>
  The shape shared by \<^verbatim>\<open>setTableCellBackground\<close>, \<^verbatim>\<open>highlightSelection\<close> and
  \<^verbatim>\<open>removeHighlightSelection\<close>: every cell of a cell selection is rewritten with
  \<open>updRange\<close>; otherwise the closest enclosing \<^verbatim>\<open>tableCell\<close> is rewritten with
  \<open>updFound\<close>; with neither the command returns false.
\<close>

definition cellCommand ::
  "(attrs \<Rightarrow> attrs) \<Rightarrow> (attrs \<Rightarrow> attrs) \<Rightarrow> transaction \<Rightarrow> error + (bool \<times> transaction)" where
  "cellCommand updRange updFound tr =
     (case selection tr of
        CellSelection f ps \<Rightarrow>
          (case forEachM (cellMarkup updRange (doc tr)) (doc tr) ps of
             Inl e \<Rightarrow> Inl e
           | Inr d \<Rightarrow> Inr (True, tr\<lparr>doc := d\<rparr>))
      | TextSelection f \<Rightarrow>
          (case findParentNodeOfType TableCell (doc tr) 0 f of
             Some (pos, n) \<Rightarrow>
               (case setNodeMarkup (doc tr) pos (updFound (attrsOf n)) of
                  None \<Rightarrow> Inl RangeError
                | Some d \<Rightarrow> Inr (True, tr\<lparr>doc := d\<rparr>))
           | None \<Rightarrow> Inr (False, tr)))"

definition setTableCellBackground :: "string option \<Rightarrow> transaction \<Rightarrow> error + (bool \<times> transaction)" where
  "setTableCellBackground bg =
     cellCommand (\<lambda>a. a\<lparr>background := bg, highlight := True\<rparr>)
                 (\<lambda>a. a\<lparr>background := bg, highlight := True\<rparr>)"

definition highlightSelection ::
  "string option \<Rightarrow> string option \<Rightarrow> transaction \<Rightarrow> error + (bool \<times> transaction)" where
  "highlightSelection b bc =
     cellCommand (\<lambda>a. a\<lparr>border := b, borderColor := bc, highlight := True\<rparr>)
                 (\<lambda>a. a\<lparr>border := b, borderColor := bc, highlight := True\<rparr>)"

definition removeHighlightSelection :: "transaction \<Rightarrow> error + (bool \<times> transaction)" where
  "removeHighlightSelection =
     cellCommand (\<lambda>a. a\<lparr>border := None, borderColor := None, highlight := False\<rparr>)
                 (\<lambda>a. a\<lparr>highlight := False\<rparr>)"

subsection \<open>Table-wide defaults\<close>

text \<open>
  The variables the callback of \<^verbatim>\<open>tr.doc.descendants\<close> shares between its calls:
  \<^verbatim>\<open>last\<close> (\<open>None\<close> while it is undefined, when \<^verbatim>\<open>pos <= last\<close> is false),
  \<^verbatim>\<open>curTable\<close>, \<^verbatim>\<open>count\<close> and the transaction's document.
\<close>

record walk =
  last' :: "nat option"
  curTable :: bool
  count :: nat
  trdoc :: document

definition inScope :: "nat \<Rightarrow> walk \<Rightarrow> bool" where
  "inScope pos w = ((case last' w of None \<Rightarrow> False | Some l \<Rightarrow> pos \<le> l) \<and> curTable w)"

text \<open>
  Lines 552 to 557: a table that starts before the selection moves \<^verbatim>\<open>last\<close> to its
  end, and sets \<^verbatim>\<open>curTable\<close> when the selection lies before that end.
\<close>

definition trackTable :: "nat \<Rightarrow> ntype \<Rightarrow> nat \<Rightarrow> nat \<Rightarrow> walk \<Rightarrow> walk" where
  "trackTable currSelection t pos sz w =
     (if t = Table \<and> currSelection > pos then
        (if currSelection < pos + sz
         then w\<lparr>last' := Some (pos + sz), curTable := True\<rparr>
         else w\<lparr>last' := Some (pos + sz)\<rparr>)
      else w)"

text \<open>
  The callback of \<^verbatim>\<open>defaultBorder\<close>, \<^verbatim>\<open>defaultBorderColor\<close> and
  \<^verbatim>\<open>defaultBackgroundColor\<close>, which differ in the attribute they write only:
  \<open>upd\<close> is \<^verbatim>\<open>{...node.attrs, border}\<close>, \<^verbatim>\<open>{...node.attrs, borderColor}\<close> or
  \<^verbatim>\<open>{...node.attrs, background}\<close>.
\<close>

definition isCell :: "ntype \<Rightarrow> bool" where
  "isCell t = (t = TableCell \<or> t = TableHeaderCell)"

text \<open>\<^verbatim>\<open>tr = tr.setNodeMarkup(pos, undefined, attrs)\<close> inside the callback.\<close>

definition markupW :: "nat \<Rightarrow> attrs \<Rightarrow> walk \<Rightarrow> error + walk" where
  "markupW pos b w =
     (case setNodeMarkup (trdoc w) pos b of
        None \<Rightarrow> Inl RangeError
      | Some d \<Rightarrow> Inr (w\<lparr>trdoc := d\<rparr>))"

fun defaultVisit :: "(attrs \<Rightarrow> attrs) \<Rightarrow> nat \<Rightarrow> walk \<Rightarrow> node \<times> nat \<Rightarrow> error + walk" where
  "defaultVisit upd currSelection w (Text c s, pos) = Inr w"
| "defaultVisit upd currSelection w (Node t a cs, pos) =
     (let w1 = trackTable currSelection t pos (nodeSize (Node t a cs)) w in
      if inScope pos w1 \<and> isCell t \<and> \<not> highlight a
      then markupW pos (upd a) w1
      else Inr w1)"

text \<open>
  The three functions: the enclosing table is looked up from the selection with a
  non-null assertion, so that \<^verbatim>\<open>found.pos\<close> throws a \<^verbatim>\<open>TypeError\<close> when there is
  none; the table node is rewritten; the callback runs over the descendants of the
  document as it is then; the transaction is dispatched and \<^verbatim>\<open>true\<close> returned.
\<close>

definition defaultAttr :: "(attrs \<Rightarrow> attrs) \<Rightarrow> transaction \<Rightarrow> error + (bool \<times> transaction)" where
  "defaultAttr upd tr =
     (case findParentNodeOfType Table (doc tr) 0 (selFrom (selection tr)) of
        None \<Rightarrow> Inl TypeError
      | Some (fpos, fnode) \<Rightarrow>
          (case setNodeMarkup (doc tr) fpos (upd (attrsOf fnode)) of
             None \<Rightarrow> Inl RangeError
           | Some d1 \<Rightarrow>
               (case forEachM (defaultVisit upd (selFrom (selection tr)))
                       \<lparr>last' = None, curTable = False, count = 0, trdoc = d1\<rparr>
                       (descendants d1 0) of
                  Inl e \<Rightarrow> Inl e
                | Inr w \<Rightarrow> Inr (True, tr\<lparr>doc := trdoc w\<rparr>))))"

definition defaultBorder :: "string option \<Rightarrow> transaction \<Rightarrow> error + (bool \<times> transaction)" where
  "defaultBorder v = defaultAttr (\<lambda>a. a\<lparr>border := v\<rparr>)"

definition defaultBorderColor :: "string option \<Rightarrow> transaction \<Rightarrow> error + (bool \<times> transaction)" where
  "defaultBorderColor v = defaultAttr (\<lambda>a. a\<lparr>borderColor := v\<rparr>)"

definition defaultBackgroundColor :: "string option \<Rightarrow> transaction \<Rightarrow> error + (bool \<times> transaction)" where
  "defaultBackgroundColor v = defaultAttr (\<lambda>a. a\<lparr>background := v\<rparr>)"

subsection \<open>Alternating row colours\<close>

text \<open>Lines 706 to 719: as \<open>trackTable\<close>, and the table around the selection gets its flag.\<close>

definition trackTableAlt :: "nat \<Rightarrow> ntype \<Rightarrow> attrs \<Rightarrow> nat \<Rightarrow> nat \<Rightarrow> walk \<Rightarrow> error + walk" where
  "trackTableAlt currSelection t a pos sz w =
     (if t = Table \<and> currSelection > pos then
        (if currSelection < pos + sz then
           (if alternateColor a = ''false''
            then markupW pos (a\<lparr>alternateColor := ''true''\<rparr>)
                   (w\<lparr>last' := Some (pos + sz), curTable := True\<rparr>)
            else Inr (w\<lparr>last' := Some (pos + sz), curTable := True\<rparr>))
         else Inr (w\<lparr>last' := Some (pos + sz)\<rparr>))
      else Inr w)"

fun alternateVisit :: "nat \<Rightarrow> walk \<Rightarrow> node \<times> nat \<Rightarrow> error + walk" where
  "alternateVisit currSelection w (Text c s, pos) = Inr w"
| "alternateVisit currSelection w (Node t a cs, pos) =
     (case trackTableAlt currSelection t a pos (nodeSize (Node t a cs)) w of
        Inl e \<Rightarrow> Inl e
      | Inr w1 \<Rightarrow>
          if inScope pos w1 then
            (let w2 = (if t = TableRow then w1\<lparr>count := count w1 + 1\<rparr> else w1) in
             if isCell t \<and> \<not> highlight a then
               (if count w2 mod 2 \<noteq> 0
                then markupW pos (a\<lparr>background := Some ''#E6E6E6''\<rparr>) w2
                else markupW pos (a\<lparr>background := Some ''null''\<rparr>) w2)
             else Inr w2)
          else Inr w1)"

definition alternateColor' :: "transaction \<Rightarrow> error + (bool \<times> transaction)" where
  "alternateColor' tr =
     (case findParentNodeOfType Table (doc tr) 0 (selFrom (selection tr)) of
        None \<Rightarrow> Inl TypeError
      | Some (fpos, fnode) \<Rightarrow>
          (case setNodeMarkup (doc tr) fpos (attrsOf fnode) of
             None \<Rightarrow> Inl RangeError
           | Some d1 \<Rightarrow>
               (case forEachM (alternateVisit (selFrom (selection tr)))
                       \<lparr>last' = None, curTable = False, count = 0, trdoc = d1\<rparr>
                       (descendants d1 0) of
                  Inl e \<Rightarrow> Inl e
                | Inr w \<Rightarrow> Inr (True, tr\<lparr>doc := trdoc w\<rparr>))))"

text \<open>
  The four table-wide commands of the class (\<^verbatim>\<open>setDefaultTableBorder\<close>,
  \<^verbatim>\<open>setDefaultTableBorderColor\<close>, \<^verbatim>\<open>setDefaultTableBackgroundColor\<close>,
  \<^verbatim>\<open>applyAlternateColor\<close>) pass their props to the functions above.
\<close>

datatype tablewide =
    SetDefaultTableBorder "string option"
  | SetDefaultTableBorderColor "string option"
  | SetDefaultTableBackgroundColor "string option"
  | ApplyAlternateColor

fun runCommand :: "tablewide \<Rightarrow> transaction \<Rightarrow> error + (bool \<times> transaction)" where
  "runCommand (SetDefaultTableBorder v) tr = defaultBorder v tr"
| "runCommand (SetDefaultTableBorderColor v) tr = defaultBorderColor v tr"
| "runCommand (SetDefaultTableBackgroundColor v) tr = defaultBackgroundColor v tr"
| "runCommand ApplyAlternateColor tr = alternateColor' tr"

text \<open>
  A session of table-wide commands, each run under the selection the user has made
  for it. A command that throws dispatches nothing, so the document stays as it was.
\<close>

fun runCommands :: "(selection \<times> tablewide) list \<Rightarrow> transaction \<Rightarrow> transaction" where
  "runCommands [] tr = tr"
| "runCommands ((s, c) # cs) tr =
     (case runCommand c (tr\<lparr>selection := s\<rparr>) of
        Inl e \<Rightarrow> runCommands cs tr
      | Inr (b, tr') \<Rightarrow> runCommands cs tr')"

subsection \<open>Repairing tables, and merging or splitting cells\<close>

text \<open>
  \<^verbatim>\<open>fixTables\<close>, \<^verbatim>\<open>mergeCells\<close> and \<^verbatim>\<open>splitCell\<close> belong to the table
  library, so they are parameters here. A library command maps the editor state to
  its boolean and the transactions it has dispatched; \<^verbatim>\<open>fixTables\<close> maps the state
  and the last good state to a transaction or \<^verbatim>\<open>undefined\<close>.
\<close>

record editorState =
  sdoc :: document
  sselection :: selection

type_synonym libraryCommand = "editorState \<Rightarrow> bool \<times> transaction list"

type_synonym fixer = "editorState \<Rightarrow> editorState option \<Rightarrow> transaction option"

definition fixTablesCommand :: "fixer \<Rightarrow> editorState option \<Rightarrow> editorState \<Rightarrow> bool \<times> transaction list" where
  "fixTablesCommand fixTables lastGood state =
     (case fixTables state lastGood of
        None \<Rightarrow> (False, [])
      | Some tr \<Rightarrow> (True, [tr]))"

definition toggleMergeCellCommand :: "libraryCommand \<Rightarrow> libraryCommand \<Rightarrow> editorState \<Rightarrow> bool \<times> transaction list" where
  "toggleMergeCellCommand mergeCells splitCell state =
     (case mergeCells state of
        (True, ds) \<Rightarrow> (False, ds)
      | (False, ds) \<Rightarrow> (case splitCell state of (r, ds') \<Rightarrow> (r, ds @ ds')))"

text \<open>
  The editor holds the current state, and the extension its field
  \<^verbatim>\<open>lastGoodState\<close>. Dispatching a transaction of \<^verbatim>\<open>fixTables\<close> (which carries the
  library's \<^verbatim>\<open>fixTables\<close> meta flag) replaces the state, and \<^verbatim>\<open>onStateUpdate\<close>
  then records the new state as the last good one. The command method
  \<^verbatim>\<open>fixTables()\<close> runs \<^verbatim>\<open>fixTablesCommand(this.lastGoodState)\<close>.
\<close>

record editor =
  state :: editorState
  lastGoodState :: "editorState option"

definition dispatchFix :: "editor \<Rightarrow> transaction \<Rightarrow> editor" where
  "dispatchFix ed tr =
     (let st = \<lparr>sdoc = doc tr, sselection = selection tr\<rparr>
      in ed\<lparr>state := st, lastGoodState := Some st\<rparr>)"

definition fixTable :: "fixer \<Rightarrow> editor \<Rightarrow> bool \<times> editor" where
  "fixTable fixTables ed =
     (case fixTablesCommand fixTables (lastGoodState ed) (state ed) of
        (r, ds) \<Rightarrow> (r, foldl dispatchFix ed ds))"

section \<open>Inserting columns and rows\<close>

text \<open>
  The grid of a table, as the library's \<^verbatim>\<open>TableMap\<close> holds it: \<open>map'\<close> is
  \<^verbatim>\<open>map.map\<close>, the position of the cell that covers each slot, relative to the
  table's start. The rectangle handed to \<^verbatim>\<open>addColumn\<close> and \<^verbatim>\<open>addRow\<close> holds the
  grid, the table's start and the table node.
\<close>

record tableMap =
  width :: nat
  height :: nat
  map' :: "nat list"

record rect =
  rmap :: tableMap
  tableStart :: nat
  table :: node

text \<open>Reading a JavaScript array: \<open>None\<close> is \<^verbatim>\<open>undefined\<close>.\<close>

definition arrayGet :: "'a list \<Rightarrow> int \<Rightarrow> 'a option" where
  "arrayGet xs i = (if 0 \<le> i \<and> i < int (length xs) then Some (xs ! nat i) else None)"

text \<open>
  \<^verbatim>\<open>table.nodeAt(pos)!\<close> followed by \<^verbatim>\<open>.type\<close> or \<^verbatim>\<open>.attrs\<close>: the library throws
  a \<^verbatim>\<open>RangeError\<close> on \<^verbatim>\<open>undefined\<close>, and reading a field of \<^verbatim>\<open>null\<close> is a
  \<^verbatim>\<open>TypeError\<close>.
\<close>

definition tableNodeAt :: "node \<Rightarrow> nat option \<Rightarrow> error + node" where
  "tableNodeAt tbl p =
     (case p of
        None \<Rightarrow> Inl RangeError
      | Some pos \<Rightarrow>
          (case nodeAt (contentOf tbl) pos of
             None \<Rightarrow> Inl TypeError
           | Some (Text c s) \<Rightarrow> Inl TypeError
           | Some (Node t a cs) \<Rightarrow> Inr (Node t a cs)))"

fun indexOf :: "nat list \<Rightarrow> nat \<Rightarrow> nat option" where
  "indexOf [] x = None"
| "indexOf (y # ys) x = (if y = x then Some 0 else map_option Suc (indexOf ys x))"

text \<open>\<^verbatim>\<open>map.colCount(pos)\<close>: the column of the first slot that holds \<open>pos\<close>.\<close>

definition colCount :: "tableMap \<Rightarrow> nat \<Rightarrow> error + nat" where
  "colCount m pos =
     (case indexOf (map' m) pos of
        None \<Rightarrow> Inl RangeError
      | Some i \<Rightarrow> Inr (i mod width m))"

text \<open>
  \<^verbatim>\<open>addColSpan(attrs, pos)\<close>: one more column, and a zero spliced into
  \<^verbatim>\<open>colwidth\<close> at \<open>pos\<close> when there is one.
\<close>

definition splice0 :: "int \<Rightarrow> nat list \<Rightarrow> nat list" where
  "splice0 p cw =
     (let k = (if p < 0 then max (int (length cw) + p) 0 else min p (int (length cw)))
      in take (nat k) cw @ [0] @ drop (nat k) cw)"

definition addColSpan :: "attrs \<Rightarrow> int \<Rightarrow> attrs" where
  "addColSpan a p = a\<lparr>colspan := colspan a + 1, colwidth := map_option (splice0 p) (colwidth a)\<rparr>"

text \<open>
  Modelled from the spec: \<^verbatim>\<open>setAttr\<close> is imported from
  \<^verbatim>\<open>table-column-resizing\<close>, which is not among the sources; the spec says that the
  cell "has its rowspan incremented", so the call writes the one attribute.
\<close>

definition setAttrRowspan :: "attrs \<Rightarrow> nat \<Rightarrow> attrs" where
  "setAttrRowspan a v = a\<lparr>rowspan := v\<rparr>"

text \<open>\<^verbatim>\<open>table.child(i)\<close> throws a \<^verbatim>\<open>RangeError\<close> past the last child.\<close>

definition child :: "node \<Rightarrow> nat \<Rightarrow> error + node" where
  "child tbl i = (if i < length (contentOf tbl) then Inr (contentOf tbl ! i) else Inl RangeError)"

fun rowsSize :: "node \<Rightarrow> nat \<Rightarrow> error + nat" where
  "rowsSize tbl 0 = Inr 0"
| "rowsSize tbl (Suc i) =
     (case rowsSize tbl i of
        Inl e \<Rightarrow> Inl e
      | Inr n \<Rightarrow> (case child tbl i of Inl e \<Rightarrow> Inl e | Inr c \<Rightarrow> Inr (n + nodeSize c)))"

text \<open>
  \<^verbatim>\<open>map.positionAt(row, col, table)\<close>: the position at which a cell of that slot
  starts, skipping slots covered from a row above; the end of the row when none is
  left.
\<close>

function skipCovered :: "nat list \<Rightarrow> nat \<Rightarrow> nat \<Rightarrow> nat \<Rightarrow> nat" where
  "skipCovered m rowStart rowEndIndex index =
     (if index < rowEndIndex then
        (case arrayGet m (int index) of
           Some p \<Rightarrow> if p < rowStart then skipCovered m rowStart rowEndIndex (index + 1) else index
         | None \<Rightarrow> index)
      else index)"
  by pat_completeness auto
termination
  by (relation "measure (\<lambda>(m, rowStart, rowEndIndex, index). rowEndIndex - index)") auto

definition positionAt :: "tableMap \<Rightarrow> nat \<Rightarrow> nat \<Rightarrow> node \<Rightarrow> error + nat" where
  "positionAt m row col tbl =
     (case rowsSize tbl row of
        Inl e \<Rightarrow> Inl e
      | Inr rowStart \<Rightarrow>
          (case child tbl row of
             Inl e \<Rightarrow> Inl e
           | Inr r \<Rightarrow>
               (let rowEnd = rowStart + nodeSize r;
                    rowEndIndex = (row + 1) * width m;
                    index = skipCovered (map' m) rowStart rowEndIndex (col + row * width m)
                in if index = rowEndIndex then Inr (rowEnd - 1)
                   else (case arrayGet (map' m) (int index) of
                           None \<Rightarrow> Inl RangeError
                         | Some p \<Rightarrow> Inr p))))"

text \<open>
  \<^verbatim>\<open>tr.insert(pos, node)\<close> at a boundary between nodes; a position inside a text
  is not modelled (\<open>None\<close>). \<^verbatim>\<open>tr.mapping.map(pos)\<close> moves a position past every
  earlier insertion at or before it, and so does the mapping of the selection.
\<close>

fun insertAt :: "node list \<Rightarrow> nat \<Rightarrow> node \<Rightarrow> node list option" where
  "insertAt [] p n = (if p = 0 then Some [n] else None)"
| "insertAt (Text c s # ns) p n =
     (if p = 0 then Some (n # Text c s # ns)
      else if p < Suc (length s) then None
      else map_option ((#) (Text c s)) (insertAt ns (p - Suc (length s)) n))"
| "insertAt (Node t a cs # ns) p n =
     (if p = 0 then Some (n # Node t a cs # ns)
      else if p < 2 + fragSize cs
        then map_option (\<lambda>cs'. Node t a cs' # ns) (insertAt cs (p - 1) n)
      else map_option ((#) (Node t a cs)) (insertAt ns (p - (2 + fragSize cs)) n))"

definition mapStep :: "nat \<times> nat \<Rightarrow> nat \<Rightarrow> nat" where
  "mapStep st pos = (if fst st \<le> pos then pos + snd st else pos)"

definition mapPos :: "(nat \<times> nat) list \<Rightarrow> nat \<Rightarrow> nat" where
  "mapPos ms pos = foldl (\<lambda>p st. mapStep st p) pos ms"

fun mapSelection :: "nat \<times> nat \<Rightarrow> selection \<Rightarrow> selection" where
  "mapSelection st (TextSelection f) = TextSelection (mapStep st f)"
| "mapSelection st (CellSelection f ps) = CellSelection (mapStep st f) (map (mapStep st) ps)"

definition trSetNodeMarkup :: "transaction \<Rightarrow> nat \<Rightarrow> attrs \<Rightarrow> error + transaction" where
  "trSetNodeMarkup tr pos b =
     (case setNodeMarkup (doc tr) pos b of
        None \<Rightarrow> Inl RangeError
      | Some d \<Rightarrow> Inr (tr\<lparr>doc := d\<rparr>))"

definition trInsert :: "transaction \<Rightarrow> nat \<Rightarrow> node \<Rightarrow> error + transaction" where
  "trInsert tr pos n =
     (case insertAt (doc tr) pos n of
        None \<Rightarrow> Inl RangeError
      | Some d \<Rightarrow>
          Inr \<lparr>doc = d, selection = mapSelection (pos, nodeSize n) (selection tr),
               mapping = mapping tr @ [(pos, nodeSize n)]\<rparr>)"

definition defaultAttrs :: attrs where
  "defaultAttrs = \<lparr>border = None, borderColor = None, background = None, highlight = False,
     alternateColor = ''false'', colspan = 1, rowspan = 1, colwidth = None\<rparr>"

text \<open>
  Modelled from the spec: the node schema (\<^verbatim>\<open>table-utils\<close>) is not among the
  sources. \<^verbatim>\<open>type.createAndFill()\<close> is the spec's "newly created empty cell", a
  schema-valid instance of the type: default attributes, and the empty paragraph a
  cell must hold.
\<close>

definition createAndFill :: "ntype \<Rightarrow> node" where
  "createAndFill t = Node t defaultAttrs [Node Paragraph defaultAttrs []]"

text \<open>
  The three calls that end \<^verbatim>\<open>addColumn\<close> and \<^verbatim>\<open>addRow\<close>; their booleans are
  dropped, and what they throw is thrown on.
\<close>

definition propagateDefaults :: "attrs \<Rightarrow> transaction \<Rightarrow> error + transaction" where
  "propagateDefaults ta tr =
     (case defaultBorder (border ta) tr of
        Inl e \<Rightarrow> Inl e
      | Inr (b1, tr1) \<Rightarrow>
          (case defaultBackgroundColor (background ta) tr1 of
             Inl e \<Rightarrow> Inl e
           | Inr (b2, tr2) \<Rightarrow>
               (case defaultBorderColor (borderColor ta) tr2 of
                  Inl e \<Rightarrow> Inl e
                | Inr (b3, tr3) \<Rightarrow> Inr tr3)))"

text \<open>
  The loop of \<^verbatim>\<open>addColumn\<close> over the rows. \<^verbatim>\<open>row += cell.attrs.rowspan - 1\<close> and
  the loop's \<^verbatim>\<open>row++\<close> move on by \<open>rowspan\<close> rows; with a rowspan of 0 the loop
  would stay on its row for ever, which is the value \<open>Diverges\<close>.
\<close>

function addColumnRows :: "transaction \<Rightarrow> rect \<Rightarrow> nat \<Rightarrow> int \<Rightarrow> nat \<Rightarrow> error + transaction" where
  "addColumnRows tr r col refColumn row =
     (if row < height (rmap r) then
        (let index = row * width (rmap r) + col in
         if col > 0 \<and> col < width (rmap r) \<and>
            arrayGet (map' (rmap r)) (int index - 1) = arrayGet (map' (rmap r)) (int index)
         then
           (case arrayGet (map' (rmap r)) (int index) of
              None \<Rightarrow> Inl RangeError
            | Some pos \<Rightarrow>
                (case tableNodeAt (table r) (Some pos) of
                   Inl e \<Rightarrow> Inl e
                 | Inr cell \<Rightarrow>
                     (case colCount (rmap r) pos of
                        Inl e \<Rightarrow> Inl e
                      | Inr cc \<Rightarrow>
                          (case trSetNodeMarkup tr (mapPos (mapping tr) (tableStart r + pos))
                                  (addColSpan (attrsOf cell) (int col - int cc)) of
                             Inl e \<Rightarrow> Inl e
                           | Inr tr' \<Rightarrow>
                               if rowspan (attrsOf cell) = 0 then Inl Diverges
                               else addColumnRows tr' r col refColumn
                                      (row + rowspan (attrsOf cell))))))
         else
           (case tableNodeAt (table r) (arrayGet (map' (rmap r)) (int index + refColumn)) of
              Inl e \<Rightarrow> Inl e
            | Inr refCell \<Rightarrow>
                (case positionAt (rmap r) row col (table r) of
                   Inl e \<Rightarrow> Inl e
                 | Inr pos \<Rightarrow>
                     (case trInsert tr (mapPos (mapping tr) (tableStart r + pos))
                             (createAndFill (typeOf refCell)) of
                        Inl e \<Rightarrow> Inl e
                      | Inr tr' \<Rightarrow> addColumnRows tr' r col refColumn (row + 1)))))
      else Inr tr)"
  by pat_completeness auto
termination
  by (relation "measure (\<lambda>(tr, r, col, refColumn, row). height (rmap r) - row)") auto

definition addColumn :: "transaction \<Rightarrow> rect \<Rightarrow> nat \<Rightarrow> error + transaction" where
  "addColumn tr r col =
     (let refColumn = (if int col < int (width (rmap r)) - 1 then 0 else - 1) in
      case addColumnRows tr r col refColumn 0 of
        Inl e \<Rightarrow> Inl e
      | Inr tr' \<Rightarrow> propagateDefaults (attrsOf (table r)) tr')"

text \<open>
  The loop of \<^verbatim>\<open>addRow\<close> over the columns: \<open>col\<close> moves on by the colspan of a
  cell that spans the new row, \<open>index\<close> by one.
\<close>

function addRowCols ::
  "transaction \<Rightarrow> rect \<Rightarrow> nat \<Rightarrow> int \<Rightarrow> node list \<Rightarrow> nat \<Rightarrow> nat \<Rightarrow> error + (transaction \<times> node list)" where
  "addRowCols tr r row refRow cells col index =
     (if col < width (rmap r) then
        (if row > 0 \<and> row < height (rmap r) \<and>
            arrayGet (map' (rmap r)) (int index) =
              arrayGet (map' (rmap r)) (int index - int (width (rmap r)))
         then
           (case arrayGet (map' (rmap r)) (int index) of
              None \<Rightarrow> Inl RangeError
            | Some pos \<Rightarrow>
                (case tableNodeAt (table r) (Some pos) of
                   Inl e \<Rightarrow> Inl e
                 | Inr cell \<Rightarrow>
                     (case trSetNodeMarkup tr (tableStart r + pos)
                             (setAttrRowspan (attrsOf cell) (rowspan (attrsOf cell) + 1)) of
                        Inl e \<Rightarrow> Inl e
                      | Inr tr' \<Rightarrow>
                          addRowCols tr' r row refRow cells
                            (col + colspan (attrsOf cell)) (index + 1))))
         else
           (case tableNodeAt (table r)
                   (arrayGet (map' (rmap r)) (int index + refRow * int (width (rmap r)))) of
              Inl e \<Rightarrow> Inl e
            | Inr refCell \<Rightarrow>
                addRowCols tr r row refRow (cells @ [createAndFill (typeOf refCell)])
                  (col + 1) (index + 1)))
      else Inr (tr, cells))"
  by pat_completeness auto
termination
  by (relation "measure (\<lambda>(tr, r, row, refRow, cells, col, index).
        (width (rmap r) - col) + (length (map' (rmap r)) - index))")
     (auto simp: arrayGet_def split: if_splits)

definition addRow :: "transaction \<Rightarrow> rect \<Rightarrow> nat \<Rightarrow> error + transaction" where
  "addRow tr r row =
     (case rowsSize (table r) row of
        Inl e \<Rightarrow> Inl e
      | Inr sz \<Rightarrow>
          (let rowPos = tableStart r + sz;
               refRow = (if int row < int (height (rmap r)) - 1 then 0 else - 1) in
           case addRowCols tr r row refRow [] 0 (width (rmap r) * row) of
             Inl e \<Rightarrow> Inl e
           | Inr (tr', cells) \<Rightarrow>
               (case trInsert tr' rowPos (Node TableRow defaultAttrs cells) of
                  Inl e \<Rightarrow> Inl e
                | Inr tr'' \<Rightarrow> propagateDefaults (attrsOf (table r)) tr'')))"

section \<open>Notions used to state the properties\<close>

text \<open>
  The type and the attributes of the node that starts at a position; \<open>None\<close> when
  none starts there.
\<close>

definition markupAt :: "node list \<Rightarrow> nat \<Rightarrow> (ntype \<times> attrs) option" where
  "markupAt d p = (case nodeAt d p of Some (Node t a cs) \<Rightarrow> Some (t, a) | _ \<Rightarrow> None)"

definition attrsAt :: "node list \<Rightarrow> nat \<Rightarrow> attrs option" where
  "attrsAt d p = map_option snd (markupAt d p)"

definition typeAt :: "node list \<Rightarrow> nat \<Rightarrow> ntype option" where
  "typeAt d p = map_option fst (markupAt d p)"

text \<open>The transaction an editor holds after a command: what the command dispatched.\<close>

definition dispatchedBy :: "(transaction \<Rightarrow> error + (bool \<times> transaction)) \<Rightarrow> transaction \<Rightarrow> transaction" where
  "dispatchedBy c tr = (case c tr of Inl e \<Rightarrow> tr | Inr (b, tr') \<Rightarrow> tr')"

text \<open>
  The cells a cell command rewrites: the cells of a cell selection, or the closest
  \<^verbatim>\<open>tableCell\<close> around the selection. A cell selection of the library holds
  positions of cells only.
\<close>

definition targetCells :: "transaction \<Rightarrow> nat list" where
  "targetCells tr =
     (case selection tr of
        CellSelection f ps \<Rightarrow> ps
      | TextSelection f \<Rightarrow>
          (case findParentNodeOfType TableCell (doc tr) 0 f of
             Some (pos, n) \<Rightarrow> [pos]
           | None \<Rightarrow> []))"

definition cellAt :: "document \<Rightarrow> nat \<Rightarrow> bool" where
  "cellAt d p = (case typeAt d p of Some t \<Rightarrow> isCell t | None \<Rightarrow> False)"

fun wfSelection :: "document \<Rightarrow> selection \<Rightarrow> bool" where
  "wfSelection d (CellSelection f ps) = list_all (cellAt d) ps"
| "wfSelection d (TextSelection f) = True"

text \<open>The attribute a table-wide default command writes.\<close>

fun writeDefault :: "tablewide \<Rightarrow> attrs \<Rightarrow> attrs" where
  "writeDefault (SetDefaultTableBorder v) a = a\<lparr>border := v\<rparr>"
| "writeDefault (SetDefaultTableBorderColor v) a = a\<lparr>borderColor := v\<rparr>"
| "writeDefault (SetDefaultTableBackgroundColor v) a = a\<lparr>background := v\<rparr>"
| "writeDefault ApplyAlternateColor a = a"

text \<open>
  No table inside the table \<open>A\<close> (which starts at \<open>q\<close>) starts before the
  selection.
\<close>

definition noTableBefore :: "nat \<Rightarrow> node \<Rightarrow> nat \<Rightarrow> bool" where
  "noTableBefore sel A q =
     list_all (\<lambda>(n, r). case n of Node t a cs \<Rightarrow> t \<noteq> Table \<or> sel \<le> r | Text c s \<Rightarrow> True)
       (descendants (contentOf A) (q + 1))"

text \<open>
  The document with every attribute object replaced by the default one: what
  \<^verbatim>\<open>setNodeMarkup\<close> never changes.
\<close>

fun erase :: "node list \<Rightarrow> node list" where
  "erase [] = []"
| "erase (Text c s # ns) = Text c s # erase ns"
| "erase (Node t a cs # ns) = Node t defaultAttrs (erase cs) # erase ns"

text \<open>
  A callback touches only what \<open>R\<close> allows: one call keeps the shape of the
  document, and keeps every node but the visited one, which it may rewrite when
  \<open>R\<close> holds of its type and attributes.
\<close>

definition touches :: "(ntype \<Rightarrow> attrs \<Rightarrow> bool) \<Rightarrow> (walk \<Rightarrow> node \<times> nat \<Rightarrow> error + walk) \<Rightarrow> bool" where
  "touches R f = (\<forall>w n q w'. f w (n, q) = Inr w' \<longrightarrow>
     erase (trdoc w') = erase (trdoc w) \<and>
     (\<forall>r. markupAt (trdoc w') r = markupAt (trdoc w) r \<or>
          (r = q \<and> (\<exists>t a cs. n = Node t a cs \<and> R t a))))"

subsection \<open>Documents used as concrete inputs\<close>

definition para :: node where
  "para = Node Paragraph defaultAttrs [Text CHR ''x'' []]"

definition plainCell :: node where
  "plainCell = Node TableCell defaultAttrs [para]"

definition plainRow :: node where
  "plainRow = Node TableRow defaultAttrs [plainCell, plainCell]"

text \<open>A table of one cell: the table at 0, its row at 1, its cell at 2, the text at 4.\<close>

definition oneCellTable :: node where
  "oneCellTable = Node Table defaultAttrs [Node TableRow defaultAttrs [plainCell]]"

text \<open>A document of one paragraph, the cursor in its text.\<close>

definition outsideTable :: transaction where
  "outsideTable = \<lparr>doc = [para], selection = TextSelection 1, mapping = []\<rparr>"

text \<open>A table whose one cell (at 2) is highlighted, the cursor in the cell's text.\<close>

definition highlightedAttrs :: attrs where
  "highlightedAttrs =
     defaultAttrs\<lparr>border := Some ''4px dashed'', borderColor := Some ''red'', highlight := True\<rparr>"

definition highlightedCell :: transaction where
  "highlightedCell =
     \<lparr>doc = [Node Table defaultAttrs [Node TableRow defaultAttrs
               [Node TableCell highlightedAttrs [para]]]],
      selection = TextSelection 4, mapping = []\<rparr>"

text \<open>
  A cell (at 2) of an outer table (at 0) that holds two tables side by side: B at 3
  with its cell at 5, and A at 12 with its cell at 14; the cursor in A's text.
\<close>

definition siblingsInCell :: transaction where
  "siblingsInCell =
     \<lparr>doc = [Node Table defaultAttrs [Node TableRow defaultAttrs
               [Node TableCell defaultAttrs [oneCellTable, oneCellTable]]]],
      selection = TextSelection 16, mapping = []\<rparr>"

text \<open>
  The same two tables as the only nodes of the document: B at 0 with its cell at 2,
  and A at 9 with its cell at 11; the cursor in A's text.
\<close>

definition siblingsAtTop :: transaction where
  "siblingsAtTop =
     \<lparr>doc = [oneCellTable, oneCellTable], selection = TextSelection 13, mapping = []\<rparr>"

text \<open>
  A table of four rows and two columns with no highlighted cell and no table inside
  it: the cells of the rows are at 2 and 7, 14 and 19, 26 and 31, 38 and 43.
\<close>

definition fourPlainRows :: transaction where
  "fourPlainRows =
     \<lparr>doc = [Node Table defaultAttrs [plainRow, plainRow, plainRow, plainRow]],
      selection = TextSelection 4, mapping = []\<rparr>"

text \<open>
  A table of four rows and two columns with no highlighted cell; the second cell of
  the first row holds a table of one cell. The cells of the rows are at 2 and 7,
  20 and 25, 32 and 37, 44 and 49; the cursor is in the first cell.
\<close>

definition fourRows :: transaction where
  "fourRows =
     \<lparr>doc = [Node Table defaultAttrs
               [Node TableRow defaultAttrs [plainCell, Node TableCell defaultAttrs [oneCellTable]],
                plainRow, plainRow, plainRow]],
      selection = TextSelection 4, mapping = []\<rparr>"

text \<open>The table of one cell with its grid, and the cursor in the cell.\<close>

definition oneCellRect :: rect where
  "oneCellRect = \<lparr>rmap = \<lparr>width = 1, height = 1, map' = [1]\<rparr>, tableStart = 1, table = oneCellTable\<rparr>"

definition inOneCell :: transaction where
  "inOneCell = \<lparr>doc = [oneCellTable], selection = TextSelection 4, mapping = []\<rparr>"

text \<open>
  A table with the default border \<^verbatim>\<open>2px solid\<close> on itself and on its cells: one
  row of two cells, the first (at 2) holding a table of one cell, the second (at 13)
  holding the cursor (at 15).
\<close>

definition borderedAttrs :: attrs where
  "borderedAttrs = defaultAttrs\<lparr>border := Some ''2px solid''\<rparr>"

definition borderedTable :: node where
  "borderedTable =
     Node Table borderedAttrs [Node TableRow defaultAttrs
       [Node TableCell borderedAttrs
          [Node Table borderedAttrs [Node TableRow defaultAttrs [Node TableCell borderedAttrs [para]]]],
        Node TableCell borderedAttrs [para]]]"

definition borderedRect :: rect where
  "borderedRect =
     \<lparr>rmap = \<lparr>width = 2, height = 1, map' = [1, 12]\<rparr>, tableStart = 1, table = borderedTable\<rparr>"

definition inBordered :: transaction where
  "inBordered = \<lparr>doc = [borderedTable], selection = TextSelection 15, mapping = []\<rparr>"

text \<open>
  A table of one row and two cells (at 2 and 7). The second cell is given a
  background, then the first is highlighted, then the default border is set.
\<close>

definition twoCells :: transaction where
  "twoCells =
     \<lparr>doc = [Node Table defaultAttrs [plainRow]], selection = TextSelection 9, mapping = []\<rparr>"

definition twoCellsColoured :: transaction where
  "twoCellsColoured =
     (dispatchedBy (setTableCellBackground (Some ''#ffff00'')) twoCells)\<lparr>selection := TextSelection 4\<rparr>"

definition twoCellsHighlighted :: transaction where
  "twoCellsHighlighted =
     dispatchedBy (highlightSelection (Some ''4px dashed'') (Some ''red'')) twoCellsColoured"

text \<open>
  The scenario of the spec: a table of three rows and three columns, whose cells are
  at 2, 7, 12, at 19, 24, 29 and at 36, 41, 46. The default border is set, then the
  cell in the middle (at 24) is highlighted.
\<close>

definition plainRow3 :: node where
  "plainRow3 = Node TableRow defaultAttrs [plainCell, plainCell, plainCell]"

definition threeByThree :: transaction where
  "threeByThree =
     \<lparr>doc = [Node Table defaultAttrs [plainRow3, plainRow3, plainRow3]],
      selection = TextSelection 26, mapping = []\<rparr>"

definition threeByThreeBordered :: transaction where
  "threeByThreeBordered = dispatchedBy (defaultBorder (Some ''2px solid'')) threeByThree"

definition threeByThreeHighlighted :: transaction where
  "threeByThreeHighlighted =
     dispatchedBy (highlightSelection (Some ''4px dashed'') (Some ''red'')) threeByThreeBordered"

section \<open>Facts about positions and about the walk\<close>

lemma markupAt_Nil [simp]: "markupAt [] p = None"
  by (simp add: markupAt_def)

lemma markupAt_Text [simp]:
  "markupAt (Text c s # ns) p = (if p < Suc (length s) then None else markupAt ns (p - Suc (length s)))"
  by (simp add: markupAt_def)

lemma markupAt_Node [simp]:
  "markupAt (Node t a cs # ns) p =
     (if p = 0 then Some (t, a)
      else if p < 2 + fragSize cs then markupAt cs (p - 1)
      else markupAt ns (p - (2 + fragSize cs)))"
  by (simp add: markupAt_def)

lemma fragSize_erase [simp]: "fragSize (erase d) = fragSize d"
  by (induction d rule: fragSize.induct) simp_all

lemma typeAt_erase: "typeAt (erase d) p = typeAt d p"
  by (induction d arbitrary: p rule: fragSize.induct) (simp_all add: typeAt_def)

lemma erase_setNodeMarkup: "setNodeMarkup d p b = Some d' \<Longrightarrow> erase d' = erase d"
proof (induction d arbitrary: p d' rule: fragSize.induct)
  case 1
  then show ?case by simp
next
  case (2 c s ns)
  from 2(2) obtain ns' where "setNodeMarkup ns (p - Suc (length s)) b = Some ns'"
    and "d' = Text c s # ns'" by (auto split: if_splits)
  with 2(1) show ?case by simp
next
  case (3 t a cs ns)
  from 3(3) consider (here) "d' = Node t b cs # ns"
    | (inner) cs' where "setNodeMarkup cs (p - 1) b = Some cs'" "d' = Node t a cs' # ns"
    | (later) ns' where "setNodeMarkup ns (p - (2 + fragSize cs)) b = Some ns'" "d' = Node t a cs # ns'"
    by (auto split: if_splits)
  then show ?case
  proof cases
    case here
    then show ?thesis by simp
  next
    case inner
    with 3(1) show ?thesis by simp
  next
    case later
    with 3(2) show ?thesis by simp
  qed
qed

lemma fragSize_setNodeMarkup: "setNodeMarkup d p b = Some d' \<Longrightarrow> fragSize d' = fragSize d"
  by (metis erase_setNodeMarkup fragSize_erase)

lemma setNodeMarkup_Some: "markupAt d p = Some (t, a) \<Longrightarrow> \<exists>d'. setNodeMarkup d p b = Some d'"
proof (induction d arbitrary: p rule: fragSize.induct)
  case 1
  then show ?case by simp
next
  case (2 c s ns)
  then show ?case by (cases "p < Suc (length s)") auto
next
  case (3 t' a' cs ns)
  then show ?case
    by (cases "p = 0"; cases "p < 2 + fragSize cs") auto
qed

lemma setNodeMarkup_None: "markupAt d p = None \<Longrightarrow> setNodeMarkup d p b = None"
proof (induction d arbitrary: p rule: fragSize.induct)
  case 1
  then show ?case by simp
next
  case (2 c s ns)
  then show ?case by (cases "p < Suc (length s)") auto
next
  case (3 t' a' cs ns)
  then show ?case
    by (cases "p = 0"; cases "p < 2 + fragSize cs") auto
qed

lemma markupAt_setNodeMarkup:
  "setNodeMarkup d p b = Some d' \<Longrightarrow>
   markupAt d' q = (if q = p then map_option (\<lambda>x. (fst x, b)) (markupAt d p) else markupAt d q)"
proof (induction d arbitrary: p q d' rule: fragSize.induct)
  case 1
  then show ?case by simp
next
  case (2 c s ns)
  from 2(2) have ge: "\<not> p < Suc (length s)" by (simp split: if_splits)
  with 2(2) obtain ns' where ns': "setNodeMarkup ns (p - Suc (length s)) b = Some ns'"
    and d': "d' = Text c s # ns'" by auto
  show ?case
  proof (cases "q < Suc (length s)")
    case True
    with ge d' show ?thesis by simp
  next
    case False
    have "(q - Suc (length s) = p - Suc (length s)) = (q = p)" using False ge by arith
    with 2(1)[OF ns', of "q - Suc (length s)"] False ge d' show ?thesis by simp
  qed
next
  case (3 t a cs ns)
  show ?case
  proof (cases "p = 0")
    case True
    with 3(3) have "d' = Node t b cs # ns" by simp
    with True show ?thesis by simp
  next
    case False
    show ?thesis
    proof (cases "p < 2 + fragSize cs")
      case True
      with False 3(3) obtain cs' where cs': "setNodeMarkup cs (p - 1) b = Some cs'"
        and d': "d' = Node t a cs' # ns" by auto
      have sz: "fragSize cs' = fragSize cs" using cs' by (rule fragSize_setNodeMarkup)
      show ?thesis
      proof (cases "q = 0 \<or> \<not> q < 2 + fragSize cs")
        case True
        then have "q \<noteq> p" using False \<open>p < 2 + fragSize cs\<close> by auto
        with True d' sz show ?thesis by auto
      next
        case qin: False
        have "(q - 1 = p - 1) = (q = p)" using qin False by arith
        with 3(1)[OF cs', of "q - 1"] qin False True d' sz show ?thesis by simp
      qed
    next
      case ge: False
      with False 3(3) obtain ns' where ns': "setNodeMarkup ns (p - (2 + fragSize cs)) b = Some ns'"
        and d': "d' = Node t a cs # ns'" by auto
      show ?thesis
      proof (cases "q < 2 + fragSize cs")
        case True
        then have "q \<noteq> p" using ge by auto
        with True d' show ?thesis by auto
      next
        case qge: False
        have "(q - (2 + fragSize cs) = p - (2 + fragSize cs)) = (q = p)" using qge ge by arith
        with 3(2)[OF ns', of "q - (2 + fragSize cs)"] qge ge False d' show ?thesis by simp
      qed
    qed
  qed
qed

lemma descendants_bounds:
  "(n, q) \<in> set (descendants d p0) \<Longrightarrow> p0 \<le> q \<and> q < p0 + fragSize d"
proof (induction d arbitrary: p0 rule: fragSize.induct)
  case 1
  then show ?case by simp
next
  case (2 c s ns)
  from 2(2) have "q = p0 \<or> (n, q) \<in> set (descendants ns (p0 + Suc (length s)))" by auto
  then show ?case using 2(1)[of "p0 + Suc (length s)"] by auto
next
  case (3 t a cs ns)
  from 3(3) have "q = p0 \<or> (n, q) \<in> set (descendants cs (p0 + 1))
      \<or> (n, q) \<in> set (descendants ns (p0 + 2 + fragSize cs))" by auto
  then show ?case using 3(1)[of "p0 + 1"] 3(2)[of "p0 + 2 + fragSize cs"] by auto
qed

lemma descendants_markupAt:
  "(Node t a cs, q) \<in> set (descendants d p0) \<Longrightarrow> markupAt d (q - p0) = Some (t, a)"
proof (induction d arbitrary: p0 rule: fragSize.induct)
  case 1
  then show ?case by simp
next
  case (2 c s ns)
  then have m: "(Node t a cs, q) \<in> set (descendants ns (p0 + Suc (length s)))" by simp
  from descendants_bounds[OF m] have "\<not> q - p0 < Suc (length s)"
    "q - p0 - Suc (length s) = q - (p0 + Suc (length s))" by arith+
  with 2(1)[OF m] show ?case by simp
next
  case (3 t' a' cs' ns)
  note IH = 3(1,2)
  from 3(3) consider (here) "Node t a cs = Node t' a' cs'" "q = p0"
    | (inner) "(Node t a cs, q) \<in> set (descendants cs' (p0 + 1))"
    | (later) "(Node t a cs, q) \<in> set (descendants ns (p0 + 2 + fragSize cs'))"
    by auto
  then show ?case
  proof cases
    case here
    then show ?thesis by simp
  next
    case inner
    from descendants_bounds[OF inner] have "q - p0 \<noteq> 0" "q - p0 < 2 + fragSize cs'"
      "q - p0 - 1 = q - (p0 + 1)" by arith+
    with IH(1)[OF inner] show ?thesis by simp
  next
    case later
    from descendants_bounds[OF later] have "q - p0 \<noteq> 0" "\<not> q - p0 < 2 + fragSize cs'"
      "q - p0 - (2 + fragSize cs') = q - (p0 + 2 + fragSize cs')" by arith+
    with IH(2)[OF later] show ?thesis by simp
  qed
qed

lemma distinct_descendants: "distinct (map snd (descendants d p0))"
proof (induction d arbitrary: p0 rule: fragSize.induct)
  case 1
  then show ?case by simp
next
  case (2 c s ns)
  have "p0 \<notin> snd ` set (descendants ns (p0 + Suc (length s)))"
    using descendants_bounds[of _ p0 ns "p0 + Suc (length s)"] by auto
  with 2 show ?case by simp
next
  case (3 t a cs ns)
  have a: "p0 \<notin> snd ` set (descendants cs (p0 + 1))"
    using descendants_bounds[of _ p0 cs "p0 + 1"] by auto
  have b: "p0 \<notin> snd ` set (descendants ns (p0 + 2 + fragSize cs))"
    using descendants_bounds[of _ p0 ns "p0 + 2 + fragSize cs"] by auto
  have c: "snd ` set (descendants cs (p0 + 1)) \<inter> snd ` set (descendants ns (p0 + 2 + fragSize cs)) = {}"
  proof -
    { fix q assume "q \<in> snd ` set (descendants cs (p0 + 1))"
        and "q \<in> snd ` set (descendants ns (p0 + 2 + fragSize cs))"
      then obtain n m where "(n, q) \<in> set (descendants cs (p0 + 1))"
        "(m, q) \<in> set (descendants ns (p0 + 2 + fragSize cs))" by auto
      from descendants_bounds[OF this(1)] descendants_bounds[OF this(2)] have False by arith }
    then show ?thesis by blast
  qed
  from a b c 3 show ?case by simp
qed

lemma findParent_decomp:
  "findParentNodeOfType ty d p0 p = Some (q, n) \<Longrightarrow>
   \<exists>pre post a cs. n = Node ty a cs \<and> p0 \<le> q \<and> q < p0 + p \<and> p0 + p < q + 2 + fragSize cs \<and>
     descendants d p0 = pre @ (n, q) # descendants cs (q + 1) @ post"
proof (induction d arbitrary: p0 p rule: fragSize.induct)
  case 1
  then show ?case by simp
next
  case (2 c s ns)
  from 2(2) have ge: "\<not> p < Suc (length s)"
    and f: "findParentNodeOfType ty ns (p0 + Suc (length s)) (p - Suc (length s)) = Some (q, n)"
    by (auto split: if_splits)
  from 2(1)[OF f] obtain pre post a cs where
    h: "n = Node ty a cs" "p0 + Suc (length s) \<le> q" "q < p0 + Suc (length s) + (p - Suc (length s))"
       "p0 + Suc (length s) + (p - Suc (length s)) < q + 2 + fragSize cs"
       "descendants ns (p0 + Suc (length s)) = pre @ (n, q) # descendants cs (q + 1) @ post"
    by blast
  have "descendants (Text c s # ns) p0 = ((Text c s, p0) # pre) @ (n, q) # descendants cs (q + 1) @ post"
    using h(5) by simp
  moreover have "p0 \<le> q" "q < p0 + p" "p0 + p < q + 2 + fragSize cs" using h(2,3,4) ge by arith+
  ultimately show ?case using h(1) by blast
next
  case (3 t a cs ns)
  from 3(3) have p0: "p \<noteq> 0" by (auto split: if_splits)
  show ?case
  proof (cases "p < 2 + fragSize cs")
    case True
    show ?thesis
    proof (cases "findParentNodeOfType ty cs (p0 + 1) (p - 1)")
      case None
      with 3(3) p0 True have e: "t = ty" "q = p0" "n = Node t a cs" by (auto split: if_splits)
      have "descendants (Node t a cs # ns) p0 = [] @ (n, q) # descendants cs (q + 1) @ descendants ns (p0 + 2 + fragSize cs)"
        using e by simp
      moreover have "p0 \<le> q" "q < p0 + p" "p0 + p < q + 2 + fragSize cs" using e p0 True by arith+
      ultimately show ?thesis using e by blast
    next
      case (Some r)
      with 3(3) p0 True have f: "findParentNodeOfType ty cs (p0 + 1) (p - 1) = Some (q, n)" by simp
      from 3(1)[OF f] obtain pre post a' cs' where
        h: "n = Node ty a' cs'" "p0 + 1 \<le> q" "q < p0 + 1 + (p - 1)" "p0 + 1 + (p - 1) < q + 2 + fragSize cs'"
           "descendants cs (p0 + 1) = pre @ (n, q) # descendants cs' (q + 1) @ post"
        by blast
      have "descendants (Node t a cs # ns) p0 =
          ((Node t a cs, p0) # pre) @ (n, q) # descendants cs' (q + 1) @ (post @ descendants ns (p0 + 2 + fragSize cs))"
        using h(5) by simp
      moreover have "p0 \<le> q" "q < p0 + p" "p0 + p < q + 2 + fragSize cs'" using h(2,3,4) p0 by arith+
      ultimately show ?thesis using h(1) by blast
    qed
  next
    case False
    with 3(3) p0 have f: "findParentNodeOfType ty ns (p0 + 2 + fragSize cs) (p - (2 + fragSize cs)) = Some (q, n)"
      by simp
    from 3(2)[OF f] obtain pre post a' cs' where
      h: "n = Node ty a' cs'" "p0 + 2 + fragSize cs \<le> q" "q < p0 + 2 + fragSize cs + (p - (2 + fragSize cs))"
         "p0 + 2 + fragSize cs + (p - (2 + fragSize cs)) < q + 2 + fragSize cs'"
         "descendants ns (p0 + 2 + fragSize cs) = pre @ (n, q) # descendants cs' (q + 1) @ post"
      by blast
    have "descendants (Node t a cs # ns) p0 =
        ((Node t a cs, p0) # descendants cs (p0 + 1) @ pre) @ (n, q) # descendants cs' (q + 1) @ post"
      using h(5) by simp
    moreover have "p0 \<le> q" "q < p0 + p" "p0 + p < q + 2 + fragSize cs'" using h(2,3,4) False by arith+
    ultimately show ?thesis using h(1) by blast
  qed
qed

lemma findParent_in_descendants:
  "findParentNodeOfType ty d p0 p = Some (q, n) \<Longrightarrow> (n, q) \<in> set (descendants d p0)"
  using findParent_decomp[of ty d p0 p q n] by auto

lemma findParent_markupAt:
  assumes "findParentNodeOfType ty d 0 p = Some (q, n)"
  shows "markupAt d q = Some (ty, attrsOf n)"
proof -
  from findParent_decomp[OF assms] obtain a cs where n: "n = Node ty a cs" by blast
  from findParent_in_descendants[OF assms] n have "(Node ty a cs, q) \<in> set (descendants d 0)" by simp
  from descendants_markupAt[OF this] n show ?thesis by simp
qed

lemma findParent_setNodeMarkup:
  "findParentNodeOfType ty d p0 p = Some (q, Node t a cs) \<Longrightarrow>
   \<exists>d'. setNodeMarkup d (q - p0) b = Some d' \<and> findParentNodeOfType ty d' p0 p = Some (q, Node t b cs)"
proof (induction d arbitrary: p0 p rule: fragSize.induct)
  case 1
  then show ?case by simp
next
  case (2 c s ns)
  from 2(2) have ge: "\<not> p < Suc (length s)"
    and f: "findParentNodeOfType ty ns (p0 + Suc (length s)) (p - Suc (length s)) = Some (q, Node t a cs)"
    by (auto split: if_splits)
  from 2(1)[OF f] obtain ns' where
    h: "setNodeMarkup ns (q - (p0 + Suc (length s))) b = Some ns'"
       "findParentNodeOfType ty ns' (p0 + Suc (length s)) (p - Suc (length s)) = Some (q, Node t b cs)"
    by blast
  from findParent_decomp[OF f] have "p0 + Suc (length s) \<le> q" by blast
  then have "\<not> q - p0 < Suc (length s)" "q - p0 - Suc (length s) = q - (p0 + Suc (length s))" by arith+
  with h ge show ?case by simp
next
  case (3 t' a' cs' ns)
  from 3(3) have p0: "p \<noteq> 0" by (auto split: if_splits)
  show ?case
  proof (cases "p < 2 + fragSize cs'")
    case True
    show ?thesis
    proof (cases "findParentNodeOfType ty cs' (p0 + 1) (p - 1)")
      case None
      with 3(3) p0 True have e: "t' = ty" "q = p0" "t = t'" "a = a'" "cs = cs'" by (auto split: if_splits)
      with None p0 True show ?thesis by simp
    next
      case (Some r)
      with 3(3) p0 True have f: "findParentNodeOfType ty cs' (p0 + 1) (p - 1) = Some (q, Node t a cs)" by simp
      from 3(1)[OF f] obtain cs'' where
        h: "setNodeMarkup cs' (q - (p0 + 1)) b = Some cs''"
           "findParentNodeOfType ty cs'' (p0 + 1) (p - 1) = Some (q, Node t b cs)"
        by blast
      have sz: "fragSize cs'' = fragSize cs'" using h(1) by (rule fragSize_setNodeMarkup)
      from findParent_in_descendants[OF f] have "p0 + 1 \<le> q \<and> q < p0 + 1 + fragSize cs'"
        by (rule descendants_bounds)
      then have "q - p0 \<noteq> 0" "q - p0 < 2 + fragSize cs'" "q - p0 - 1 = q - (p0 + 1)" by arith+
      with h sz p0 True show ?thesis by simp
    qed
  next
    case False
    with 3(3) p0 have f: "findParentNodeOfType ty ns (p0 + 2 + fragSize cs') (p - (2 + fragSize cs')) = Some (q, Node t a cs)"
      by simp
    from 3(2)[OF f] obtain ns' where
      h: "setNodeMarkup ns (q - (p0 + 2 + fragSize cs')) b = Some ns'"
         "findParentNodeOfType ty ns' (p0 + 2 + fragSize cs') (p - (2 + fragSize cs')) = Some (q, Node t b cs)"
      by blast
    from findParent_decomp[OF f] have "p0 + 2 + fragSize cs' \<le> q" by blast
    then have "q - p0 \<noteq> 0" "\<not> q - p0 < 2 + fragSize cs'"
      "q - p0 - (2 + fragSize cs') = q - (p0 + 2 + fragSize cs')" by arith+
    with h p0 False show ?thesis by simp
  qed
qed

lemma forEachM_append:
  "forEachM f s (xs @ ys) = (case forEachM f s xs of Inl e \<Rightarrow> Inl e | Inr s' \<Rightarrow> forEachM f s' ys)"
  by (induction xs arbitrary: s) (simp_all split: sum.splits)

lemma forEachM_frame:
  assumes "touches R f"
  shows "forEachM f w xs = Inr w' \<Longrightarrow>
     erase (trdoc w') = erase (trdoc w) \<and>
     (\<forall>r. markupAt (trdoc w') r = markupAt (trdoc w) r \<or> (\<exists>t a cs. (Node t a cs, r) \<in> set xs \<and> R t a))"
proof (induction xs arbitrary: w)
  case Nil
  then show ?case by simp
next
  case (Cons x xs)
  obtain n q where x: "x = (n, q)" by (cases x)
  from Cons.prems obtain w1 where s: "f w (n, q) = Inr w1" and r: "forEachM f w1 xs = Inr w'"
    by (auto simp: x split: sum.splits)
  from assms s have one: "erase (trdoc w1) = erase (trdoc w)"
    "\<And>r. markupAt (trdoc w1) r = markupAt (trdoc w) r \<or> (r = q \<and> (\<exists>t a cs. n = Node t a cs \<and> R t a))"
    unfolding touches_def by blast+
  from Cons.IH[OF r] have rest: "erase (trdoc w') = erase (trdoc w1)"
    "\<And>r. markupAt (trdoc w') r = markupAt (trdoc w1) r \<or> (\<exists>t a cs. (Node t a cs, r) \<in> set xs \<and> R t a)"
    by blast+
  show ?case
  proof (intro conjI allI)
    show "erase (trdoc w') = erase (trdoc w)" using one(1) rest(1) by simp
  next
    fix r
    from one(2)[of r] rest(2)[of r]
    show "markupAt (trdoc w') r = markupAt (trdoc w) r \<or> (\<exists>t a cs. (Node t a cs, r) \<in> set (x # xs) \<and> R t a)"
      unfolding x by auto
  qed
qed

lemma markupW_frame:
  assumes "markupW q b w = Inr w'"
  shows "erase (trdoc w') = erase (trdoc w)"
    and "last' w' = last' w" and "curTable w' = curTable w" and "count w' = count w"
    and "r \<noteq> q \<Longrightarrow> markupAt (trdoc w') r = markupAt (trdoc w) r"
    and "attrsAt (trdoc w') q = Some b"
proof -
  from assms obtain d where d: "setNodeMarkup (trdoc w) q b = Some d" and w': "w' = w\<lparr>trdoc := d\<rparr>"
    by (auto simp: markupW_def split: option.splits)
  show "erase (trdoc w') = erase (trdoc w)" using erase_setNodeMarkup[OF d] w' by simp
  show "last' w' = last' w" "curTable w' = curTable w" "count w' = count w" using w' by simp_all
  show "r \<noteq> q \<Longrightarrow> markupAt (trdoc w') r = markupAt (trdoc w) r"
    using markupAt_setNodeMarkup[OF d, of r] w' by simp
  have "markupAt (trdoc w) q \<noteq> None"
  proof
    assume "markupAt (trdoc w) q = None"
    from setNodeMarkup_None[OF this, of b] d show False by simp
  qed
  then obtain t a where "markupAt (trdoc w) q = Some (t, a)" by (cases "markupAt (trdoc w) q") auto
  then show "attrsAt (trdoc w') q = Some b"
    using markupAt_setNodeMarkup[OF d, of q] w' by (simp add: attrsAt_def)
qed

lemma trackTable_trdoc [simp]: "trdoc (trackTable sel t q sz w) = trdoc w"
  by (simp add: trackTable_def)

lemma touches_defaultVisit: "touches (\<lambda>t a. isCell t \<and> \<not> highlight a) (defaultVisit upd sel)"
  unfolding touches_def
proof (intro allI impI)
  fix w n q w'
  assume h: "defaultVisit upd sel w (n, q) = Inr w'"
  show "erase (trdoc w') = erase (trdoc w) \<and>
     (\<forall>r. markupAt (trdoc w') r = markupAt (trdoc w) r \<or>
          (r = q \<and> (\<exists>t a cs. n = Node t a cs \<and> isCell t \<and> \<not> highlight a)))"
  proof (cases n)
    case (Text c s)
    with h show ?thesis by simp
  next
    case (Node t a cs)
    let ?w1 = "trackTable sel t q (nodeSize (Node t a cs)) w"
    show ?thesis
    proof (cases "inScope q ?w1 \<and> isCell t \<and> \<not> highlight a")
      case True
      with h Node have m: "markupW q (upd a) ?w1 = Inr w'" by simp
      from markupW_frame(1,5)[OF m] True Node show ?thesis by auto
    next
      case False
      with h Node have "w' = ?w1" by (auto simp: Let_def)
      then show ?thesis by simp
    qed
  qed
qed

lemma trackTableAlt_frame:
  assumes "trackTableAlt sel t a q sz w = Inr w1"
  shows "erase (trdoc w1) = erase (trdoc w)"
    and "markupAt (trdoc w1) r = markupAt (trdoc w) r \<or> (r = q \<and> t = Table)"
proof -
  consider (m) "t = Table" "markupW q (a\<lparr>alternateColor := ''true''\<rparr>)
        (w\<lparr>last' := Some (q + sz), curTable := True\<rparr>) = Inr w1"
    | (u) "trdoc w1 = trdoc w"
    using assms by (auto simp: trackTableAlt_def split: if_splits)
  then have "erase (trdoc w1) = erase (trdoc w) \<and>
      (markupAt (trdoc w1) r = markupAt (trdoc w) r \<or> (r = q \<and> t = Table))"
  proof cases
    case m
    from markupW_frame(1,5)[OF m(2)] m(1) show ?thesis by (cases "r = q") auto
  next
    case u
    then show ?thesis by simp
  qed
  then show "erase (trdoc w1) = erase (trdoc w)"
    and "markupAt (trdoc w1) r = markupAt (trdoc w) r \<or> (r = q \<and> t = Table)" by blast+
qed

lemma touches_alternateVisit:
  "touches (\<lambda>t a. (isCell t \<and> \<not> highlight a) \<or> t = Table) (alternateVisit sel)"
  unfolding touches_def
proof (intro allI impI)
  fix w n q w'
  assume h: "alternateVisit sel w (n, q) = Inr w'"
  show "erase (trdoc w') = erase (trdoc w) \<and>
     (\<forall>r. markupAt (trdoc w') r = markupAt (trdoc w) r \<or>
          (r = q \<and> (\<exists>t a cs. n = Node t a cs \<and> ((isCell t \<and> \<not> highlight a) \<or> t = Table))))"
  proof (cases n)
    case (Text c s)
    with h show ?thesis by simp
  next
    case (Node t a cs)
    from h Node obtain w1 where t1: "trackTableAlt sel t a q (nodeSize (Node t a cs)) w = Inr w1"
      by (auto split: sum.splits)
    note f1 = trackTableAlt_frame[OF t1]
    let ?w2 = "if t = TableRow then w1\<lparr>count := count w1 + 1\<rparr> else w1"
    have d2: "trdoc ?w2 = trdoc w1" by simp
    consider (m) b where "isCell t" "\<not> highlight a" "markupW q b ?w2 = Inr w'"
      | (u) "trdoc w' = trdoc w1"
      using h Node t1 by (auto simp: Let_def split: if_splits)
    then show ?thesis
    proof cases
      case m
      note f2 = markupW_frame(1,5)[OF m(3)]
      show ?thesis
      proof (intro conjI allI)
        show "erase (trdoc w') = erase (trdoc w)" using f1(1) f2(1) d2 by simp
      next
        fix r
        show "markupAt (trdoc w') r = markupAt (trdoc w) r \<or>
          (r = q \<and> (\<exists>t a cs. n = Node t a cs \<and> ((isCell t \<and> \<not> highlight a) \<or> t = Table)))"
        proof (cases "r = q")
          case True
          with m(1,2) Node show ?thesis by blast
        next
          case False
          with f2(2)[of r] f1(2)[of r] d2 show ?thesis by simp
        qed
      qed
    next
      case u
      show ?thesis
      proof (intro conjI allI)
        show "erase (trdoc w') = erase (trdoc w)" using f1(1) u by simp
      next
        fix r
        from f1(2)[of r] u Node
        show "markupAt (trdoc w') r = markupAt (trdoc w) r \<or>
          (r = q \<and> (\<exists>t a cs. n = Node t a cs \<and> ((isCell t \<and> \<not> highlight a) \<or> t = Table)))"
          by auto
      qed
    qed
  qed
qed

lemma walk_exempt:
  assumes "touches R f" and "forEachM f w (descendants d1 0) = Inr w'" and "trdoc w = d1"
    and "markupAt d1 p = Some (t, a)" and "\<not> R t a"
  shows "markupAt (trdoc w') p = Some (t, a)"
proof -
  from forEachM_frame[OF assms(1,2)] have
    "markupAt (trdoc w') p = markupAt (trdoc w) p \<or> (\<exists>t a cs. (Node t a cs, p) \<in> set (descendants d1 0) \<and> R t a)"
    by blast
  then show ?thesis
  proof
    assume "markupAt (trdoc w') p = markupAt (trdoc w) p"
    with assms(3,4) show ?thesis by simp
  next
    assume "\<exists>t a cs. (Node t a cs, p) \<in> set (descendants d1 0) \<and> R t a"
    then obtain t' a' cs' where m: "(Node t' a' cs', p) \<in> set (descendants d1 0)" and R: "R t' a'" by blast
    from descendants_markupAt[OF m] assms(4) have "t' = t" "a' = a" by simp_all
    with R assms(5) show ?thesis by simp
  qed
qed

lemma defaultAttr_exempt:
  assumes "defaultAttr upd tr = Inr (r, tr')" and "markupAt (doc tr) p = Some (t, a)"
    and "isCell t" and "highlight a"
  shows "markupAt (doc tr') p = Some (t, a)"
proof -
  from assms(1) obtain fpos fnode d1 w where
    f: "findParentNodeOfType Table (doc tr) 0 (selFrom (selection tr)) = Some (fpos, fnode)"
    and d1: "setNodeMarkup (doc tr) fpos (upd (attrsOf fnode)) = Some d1"
    and w: "forEachM (defaultVisit upd (selFrom (selection tr)))
              \<lparr>last' = None, curTable = False, count = 0, trdoc = d1\<rparr> (descendants d1 0) = Inr w"
    and tr': "tr' = tr\<lparr>doc := trdoc w\<rparr>"
    by (auto simp: defaultAttr_def split: option.splits sum.splits)
  from findParent_markupAt[OF f] assms(2,3) have "p \<noteq> fpos" by (auto simp: isCell_def)
  with markupAt_setNodeMarkup[OF d1, of p] assms(2) have "markupAt d1 p = Some (t, a)" by simp
  from walk_exempt[OF touches_defaultVisit w _ this] assms(3,4) tr' show ?thesis by simp
qed

lemma alternateColor_exempt:
  assumes "alternateColor' tr = Inr (r, tr')" and "markupAt (doc tr) p = Some (t, a)"
    and "isCell t" and "highlight a"
  shows "markupAt (doc tr') p = Some (t, a)"
proof -
  from assms(1) obtain fpos fnode d1 w where
    f: "findParentNodeOfType Table (doc tr) 0 (selFrom (selection tr)) = Some (fpos, fnode)"
    and d1: "setNodeMarkup (doc tr) fpos (attrsOf fnode) = Some d1"
    and w: "forEachM (alternateVisit (selFrom (selection tr)))
              \<lparr>last' = None, curTable = False, count = 0, trdoc = d1\<rparr> (descendants d1 0) = Inr w"
    and tr': "tr' = tr\<lparr>doc := trdoc w\<rparr>"
    by (auto simp: alternateColor'_def split: option.splits sum.splits)
  from findParent_markupAt[OF f] assms(2,3) have "p \<noteq> fpos" by (auto simp: isCell_def)
  with markupAt_setNodeMarkup[OF d1, of p] assms(2) have m: "markupAt d1 p = Some (t, a)" by simp
  have "\<not> ((isCell t \<and> \<not> highlight a) \<or> t = Table)" using assms(3,4) by (auto simp: isCell_def)
  from walk_exempt[OF touches_alternateVisit w _ m this] tr' show ?thesis by simp
qed

lemma markupAt_same_shape:
  assumes "erase d = erase d'" and "markupAt d' q = Some (t, a)"
  shows "\<exists>a'. markupAt d q = Some (t, a')"
proof -
  have "typeAt d q = typeAt d' q" using typeAt_erase[of d q] typeAt_erase[of d' q] assms(1) by simp
  with assms(2) show ?thesis by (auto simp: typeAt_def)
qed

lemma markupW_succeeds:
  assumes "erase (trdoc w) = erase d1" and "(Node t a cs, q) \<in> set (descendants d1 0)"
  shows "\<exists>w'. markupW q b w = Inr w'"
proof -
  from descendants_markupAt[OF assms(2)] have "markupAt d1 q = Some (t, a)" by simp
  from markupAt_same_shape[OF assms(1) this] obtain a' where "markupAt (trdoc w) q = Some (t, a')" ..
  from setNodeMarkup_Some[OF this, of b] show ?thesis by (auto simp: markupW_def)
qed

lemma defaultVisit_succeeds:
  assumes "erase (trdoc w) = erase d1" and "(n, q) \<in> set (descendants d1 0)"
  shows "\<exists>w'. defaultVisit upd sel w (n, q) = Inr w'"
proof (cases n)
  case (Text c s)
  then show ?thesis by simp
next
  case (Node t a cs)
  let ?w1 = "trackTable sel t q (nodeSize (Node t a cs)) w"
  have "erase (trdoc ?w1) = erase d1" using assms(1) by simp
  from markupW_succeeds[OF this, of t a cs q "upd a"] assms(2) Node
  show ?thesis by (auto simp: Let_def)
qed

lemma forEachM_default_succeeds:
  "erase (trdoc w) = erase d1 \<Longrightarrow> set xs \<subseteq> set (descendants d1 0) \<Longrightarrow>
   \<exists>w'. forEachM (defaultVisit upd sel) w xs = Inr w'"
proof (induction xs arbitrary: w)
  case Nil
  then show ?case by simp
next
  case (Cons x xs)
  obtain n q where x: "x = (n, q)" by (cases x)
  from Cons.prems x have "(n, q) \<in> set (descendants d1 0)" by simp
  from defaultVisit_succeeds[OF Cons.prems(1) this] obtain w1
    where w1: "defaultVisit upd sel w (n, q) = Inr w1" by blast
  from touches_defaultVisit[of upd sel] w1 have "erase (trdoc w1) = erase (trdoc w)"
    unfolding touches_def by blast
  with Cons.prems have "erase (trdoc w1) = erase d1" by simp
  from Cons.IH[OF this] Cons.prems(2) obtain w' where "forEachM (defaultVisit upd sel) w1 xs = Inr w'"
    by auto
  with w1 x show ?case by simp
qed

lemma defaultAttr_succeeds:
  assumes "findParentNodeOfType Table (doc tr) 0 (selFrom (selection tr)) = Some (q, A)"
  shows "\<exists>tr'. defaultAttr upd tr = Inr (True, tr')"
proof -
  from findParent_decomp[OF assms] obtain a cs where A: "A = Node Table a cs" by blast
  from findParent_setNodeMarkup[OF assms[unfolded A], of "upd a"] obtain d1
    where d1: "setNodeMarkup (doc tr) q (upd a) = Some d1" by auto
  from forEachM_default_succeeds[of "\<lparr>last' = None, curTable = False, count = 0, trdoc = d1\<rparr>" d1
      "descendants d1 0" upd "selFrom (selection tr)"]
  obtain w where "forEachM (defaultVisit upd (selFrom (selection tr)))
      \<lparr>last' = None, curTable = False, count = 0, trdoc = d1\<rparr> (descendants d1 0) = Inr w" by auto
  with assms d1 A show ?thesis by (simp add: defaultAttr_def)
qed

lemma defaultVisit_untracked:
  assumes "defaultVisit upd sel w (n, q) = Inr w1"
    and "\<And>t a cs. n = Node t a cs \<Longrightarrow> t = Table \<Longrightarrow> sel \<le> q"
  shows "last' w1 = last' w" and "curTable w1 = curTable w"
proof -
  have "last' w1 = last' w \<and> curTable w1 = curTable w"
  proof (cases n)
    case (Text c s)
    with assms(1) show ?thesis by simp
  next
    case (Node t a cs)
    have tt: "trackTable sel t q (nodeSize (Node t a cs)) w = w"
      using assms(2)[OF Node] by (auto simp: trackTable_def)
    show ?thesis
    proof (cases "inScope q w \<and> isCell t \<and> \<not> highlight a")
      case True
      with assms(1) Node tt have "markupW q (upd a) w = Inr w1" by simp
      from markupW_frame(2,3)[OF this] show ?thesis by simp
    next
      case False
      with assms(1) Node tt show ?thesis by auto
    qed
  qed
  then show "last' w1 = last' w" and "curTable w1 = curTable w" by simp_all
qed

lemma default_cover_inner:
  assumes "forEachM (defaultVisit upd sel) w ys = Inr w'"
    and "last' w = Some L" and "curTable w"
    and "\<forall>n r. (n, r) \<in> set ys \<longrightarrow> r \<le> L"
    and "\<forall>t a cs r. (Node t a cs, r) \<in> set ys \<longrightarrow> t = Table \<longrightarrow> sel \<le> r"
    and "distinct (map snd ys)"
    and "(Node t a cs, r) \<in> set ys" and "isCell t" and "\<not> highlight a"
  shows "attrsAt (trdoc w') r = Some (upd a)"
  using assms
proof (induction ys arbitrary: w)
  case Nil
  then show ?case by simp
next
  case (Cons x ys)
  obtain n q where x: "x = (n, q)" by (cases x)
  from Cons.prems(1) obtain w1 where s: "defaultVisit upd sel w (n, q) = Inr w1"
    and rest: "forEachM (defaultVisit upd sel) w1 ys = Inr w'"
    by (auto simp: x split: sum.splits)
  have unt: "\<And>t' a' cs'. n = Node t' a' cs' \<Longrightarrow> t' = Table \<Longrightarrow> sel \<le> q"
    using Cons.prems(5) x by simp
  note st = defaultVisit_untracked[OF s unt]
  show ?case
  proof (cases "r \<in> snd ` set ys")
    case True
    with Cons.prems(6) x have "r \<noteq> q" by auto
    with Cons.prems(7) x have mem: "(Node t a cs, r) \<in> set ys" by auto
    show ?thesis
    proof (rule Cons.IH[OF rest _ _ _ _ _ mem Cons.prems(8,9)])
      show "last' w1 = Some L" using st(1) Cons.prems(2) by simp
      show "curTable w1" using st(2) Cons.prems(3) by simp
      show "\<forall>n r. (n, r) \<in> set ys \<longrightarrow> r \<le> L" using Cons.prems(4) by simp
      show "\<forall>t a cs r. (Node t a cs, r) \<in> set ys \<longrightarrow> t = Table \<longrightarrow> sel \<le> r"
        using Cons.prems(5) by simp
      show "distinct (map snd ys)" using Cons.prems(6) by simp
    qed
  next
    case False
    with Cons.prems(7) x have e: "n = Node t a cs" "q = r" by force+
    have tt: "trackTable sel t r (nodeSize (Node t a cs)) w = w"
      using unt[OF e(1)] e(2) by (auto simp: trackTable_def)
    have "r \<le> L" using Cons.prems(4) x e by simp
    then have "inScope r w" using Cons.prems(2,3) by (simp add: inScope_def)
    with s e tt Cons.prems(8,9) have m: "markupW r (upd a) w = Inr w1" by simp
    from forEachM_frame[OF touches_defaultVisit rest] False
    have "markupAt (trdoc w') r = markupAt (trdoc w1) r" by force
    with markupW_frame(6)[OF m] show ?thesis by (simp add: attrsAt_def)
  qed
qed

lemma forEachM_append_Inr:
  assumes "forEachM f s (xs @ ys) = Inr s'"
  obtains s1 where "forEachM f s xs = Inr s1" and "forEachM f s1 ys = Inr s'"
  using assms by (cases "forEachM f s xs") (simp_all add: forEachM_append)

lemma forEachM_Cons_Inr:
  assumes "forEachM f s (x # xs) = Inr s'"
  obtains s1 where "f s x = Inr s1" and "forEachM f s1 xs = Inr s'"
  using assms by (cases "f s x") simp_all

lemma defaultAttr_unfold:
  assumes "findParentNodeOfType Table (doc tr) 0 (selFrom (selection tr)) = Some (q, A)"
    and "defaultAttr upd tr = Inr (b, tr')"
  obtains d1 w where "setNodeMarkup (doc tr) q (upd (attrsOf A)) = Some d1"
    and "forEachM (defaultVisit upd (selFrom (selection tr)))
          \<lparr>last' = None, curTable = False, count = 0, trdoc = d1\<rparr> (descendants d1 0) = Inr w"
    and "tr' = tr\<lparr>doc := trdoc w\<rparr>" and "b"
proof (cases "setNodeMarkup (doc tr) q (upd (attrsOf A))")
  case None
  with assms show ?thesis by (simp add: defaultAttr_def)
next
  case (Some d1)
  show ?thesis
  proof (cases "forEachM (defaultVisit upd (selFrom (selection tr)))
          \<lparr>last' = None, curTable = False, count = 0, trdoc = d1\<rparr> (descendants d1 0)")
    case (Inl e)
    with assms Some show ?thesis by (simp add: defaultAttr_def)
  next
    case (Inr w)
    with assms Some have "tr' = tr\<lparr>doc := trdoc w\<rparr>" "b" by (simp_all add: defaultAttr_def)
    with Some Inr that show ?thesis by blast
  qed
qed

lemma defaultAttr_cover:
  assumes f: "findParentNodeOfType Table (doc tr) 0 (selFrom (selection tr)) = Some (q, A)"
    and run: "defaultAttr upd tr = Inr (b, tr')"
    and cell: "(Node t a cs, r) \<in> set (descendants (contentOf A) (q + 1))" "isCell t" "\<not> highlight a"
    and nonest: "\<forall>t' a' cs' r'. (Node t' a' cs', r') \<in> set (descendants (contentOf A) (q + 1)) \<longrightarrow>
        t' = Table \<longrightarrow> selFrom (selection tr) \<le> r'"
  shows "attrsAt (doc tr') r = Some (upd a)"
proof -
  let ?sel = "selFrom (selection tr)"
  let ?f = "defaultVisit upd ?sel"
  from findParent_decomp[OF f] obtain aA csA where A: "A = Node Table aA csA" by blast
  from defaultAttr_unfold[OF f run] obtain d1 w where
    d1: "setNodeMarkup (doc tr) q (upd (attrsOf A)) = Some d1"
    and w: "forEachM ?f \<lparr>last' = None, curTable = False, count = 0, trdoc = d1\<rparr> (descendants d1 0) = Inr w"
    and tr': "tr' = tr\<lparr>doc := trdoc w\<rparr>" by blast
  from findParent_setNodeMarkup[OF f[unfolded A], of "upd aA"] d1 A
  have f1: "findParentNodeOfType Table d1 0 ?sel = Some (q, Node Table (upd aA) csA)" by simp
  from findParent_decomp[OF f1] obtain pre post where
    b: "q < ?sel" "?sel < q + 2 + fragSize csA"
    and dec: "descendants d1 0 = pre @ (Node Table (upd aA) csA, q) # descendants csA (q + 1) @ post"
    by auto
  let ?inner = "descendants csA (q + 1)"
  from w[unfolded dec] obtain wp where
    wp: "forEachM ?f wp ((Node Table (upd aA) csA, q) # ?inner @ post) = Inr w"
    by (rule forEachM_append_Inr)
  from wp obtain wA where wA: "?f wp (Node Table (upd aA) csA, q) = Inr wA"
    and wrest: "forEachM ?f wA (?inner @ post) = Inr w"
    by (rule forEachM_Cons_Inr)
  from wrest obtain wi where wi: "forEachM ?f wA ?inner = Inr wi"
    and wpost: "forEachM ?f wi post = Inr w"
    by (rule forEachM_append_Inr)
  have "trackTable ?sel Table q (nodeSize (Node Table (upd aA) csA)) wp
      = wp\<lparr>last' := Some (q + (2 + fragSize csA)), curTable := True\<rparr>"
    using b by (simp add: trackTable_def nodeSize_def)
  with wA have wA': "wA = wp\<lparr>last' := Some (q + (2 + fragSize csA)), curTable := True\<rparr>"
    by (simp add: isCell_def)
  have bound: "\<forall>n r. (n, r) \<in> set ?inner \<longrightarrow> r \<le> q + (2 + fragSize csA)"
  proof (intro allI impI)
    fix n r assume "(n, r) \<in> set ?inner"
    from descendants_bounds[OF this] show "r \<le> q + (2 + fragSize csA)" by simp
  qed
  have mem: "(Node t a cs, r) \<in> set ?inner" using cell(1) A by simp
  have "attrsAt (trdoc wi) r = Some (upd a)"
  proof (rule default_cover_inner[OF wi _ _ bound _ _ mem cell(2,3)])
    show "last' wA = Some (q + (2 + fragSize csA))" using wA' by simp
    show "curTable wA" using wA' by simp
    show "\<forall>t a cs r. (Node t a cs, r) \<in> set ?inner \<longrightarrow> t = Table \<longrightarrow> ?sel \<le> r"
      using nonest A by simp
    show "distinct (map snd ?inner)" by (rule distinct_descendants)
  qed
  moreover have "markupAt (trdoc w) r = markupAt (trdoc wi) r"
  proof -
    have "distinct (map snd (descendants d1 0))" by (rule distinct_descendants)
    then have "distinct (map snd ?inner @ map snd post)" unfolding dec by simp
    then have "set (map snd ?inner) \<inter> set (map snd post) = {}" by simp
    moreover have "r \<in> set (map snd ?inner)" using mem by force
    ultimately have "r \<notin> snd ` set post" by auto
    with forEachM_frame[OF touches_defaultVisit wpost] show ?thesis by force
  qed
  ultimately show ?thesis using tr' by (simp add: attrsAt_def)
qed

lemma nodeAt_markupAt: "nodeAt d p = Some (Node t a cs) \<Longrightarrow> markupAt d p = Some (t, a)"
  by (simp add: markupAt_def)

lemma cellMarkup_Inr:
  assumes "cellMarkup upd sd d x = Inr d1"
  obtains t a where "markupAt sd x = Some (t, a)" and "setNodeMarkup d x (upd a) = Some d1"
proof -
  from assms obtain t a cs where n: "nodeAt sd x = Some (Node t a cs)"
    and m: "setNodeMarkup d x (upd a) = Some d1"
    by (auto split: option.splits node.splits)
  from nodeAt_markupAt[OF n] m that show ?thesis by blast
qed

lemma forEachM_cellMarkup_other:
  "forEachM (cellMarkup upd sd) d ps = Inr d' \<Longrightarrow> p \<notin> set ps \<Longrightarrow>
   erase d' = erase d \<and> markupAt d' p = markupAt d p"
proof (induction ps arbitrary: d)
  case Nil
  then show ?case by simp
next
  case (Cons x ps)
  from Cons.prems(1) obtain d1 where s: "cellMarkup upd sd d x = Inr d1"
    and rest: "forEachM (cellMarkup upd sd) d1 ps = Inr d'"
    by (rule forEachM_Cons_Inr)
  from s obtain t a where m: "setNodeMarkup d x (upd a) = Some d1" by (rule cellMarkup_Inr)
  from Cons.prems(2) have "p \<noteq> x" "p \<notin> set ps" by auto
  with Cons.IH[OF rest] markupAt_setNodeMarkup[OF m, of p] erase_setNodeMarkup[OF m]
  show ?case by simp
qed

lemma forEachM_cellMarkup_erase:
  "forEachM (cellMarkup upd sd) d ps = Inr d' \<Longrightarrow> erase d' = erase d"
proof (induction ps arbitrary: d)
  case Nil
  then show ?case by simp
next
  case (Cons x ps)
  from Cons.prems(1) obtain d1 where s: "cellMarkup upd sd d x = Inr d1"
    and rest: "forEachM (cellMarkup upd sd) d1 ps = Inr d'"
    by (rule forEachM_Cons_Inr)
  from s obtain t a where m: "setNodeMarkup d x (upd a) = Some d1" by (rule cellMarkup_Inr)
  from Cons.IH[OF rest] erase_setNodeMarkup[OF m] show ?case by simp
qed

lemma forEachM_cellMarkup_target:
  "forEachM (cellMarkup upd sd) d ps = Inr d' \<Longrightarrow> erase d = erase sd \<Longrightarrow> p \<in> set ps \<Longrightarrow>
   \<exists>t a. markupAt sd p = Some (t, a) \<and> markupAt d' p = Some (t, upd a)"
proof (induction ps arbitrary: d)
  case Nil
  then show ?case by simp
next
  case (Cons x ps)
  from Cons.prems(1) obtain d1 where s: "cellMarkup upd sd d x = Inr d1"
    and rest: "forEachM (cellMarkup upd sd) d1 ps = Inr d'"
    by (rule forEachM_Cons_Inr)
  from s obtain t a where sd: "markupAt sd x = Some (t, a)"
    and m: "setNodeMarkup d x (upd a) = Some d1" by (rule cellMarkup_Inr)
  have e1: "erase d1 = erase sd" using erase_setNodeMarkup[OF m] Cons.prems(2) by simp
  show ?case
  proof (cases "p \<in> set ps")
    case True
    from Cons.IH[OF rest e1 True] show ?thesis .
  next
    case False
    with Cons.prems(3) have px: "p = x" by simp
    from markupAt_same_shape[OF Cons.prems(2) sd] obtain a' where "markupAt d x = Some (t, a')" ..
    with markupAt_setNodeMarkup[OF m, of x] have "markupAt d1 x = Some (t, upd a)" by simp
    with forEachM_cellMarkup_other[OF rest False] px sd show ?thesis by simp
  qed
qed

lemma cellCommand_target:
  assumes "cellCommand u1 u2 tr = Inr (True, tr')" and "p \<in> set (targetCells tr)"
  shows "\<exists>t a. markupAt (doc tr) p = Some (t, a) \<and>
     markupAt (doc tr') p = Some (t, (case selection tr of CellSelection f ps \<Rightarrow> u1 a | TextSelection f \<Rightarrow> u2 a))"
proof (cases "selection tr")
  case (CellSelection f ps)
  with assms(1) obtain d where d: "forEachM (cellMarkup u1 (doc tr)) (doc tr) ps = Inr d"
    and tr': "tr' = tr\<lparr>doc := d\<rparr>"
    by (auto simp: cellCommand_def split: sum.splits)
  from assms(2) CellSelection have "p \<in> set ps" by (simp add: targetCells_def)
  from forEachM_cellMarkup_target[OF d refl this] tr' CellSelection show ?thesis by simp
next
  case (TextSelection f)
  show ?thesis
  proof (cases "findParentNodeOfType TableCell (doc tr) 0 f")
    case None
    with assms(2) TextSelection show ?thesis by (simp add: targetCells_def)
  next
    case (Some r)
    obtain pos n where r: "r = (pos, n)" by (cases r)
    from assms(2) TextSelection Some r have p: "p = pos" by (simp add: targetCells_def)
    from assms(1) TextSelection Some r obtain d where
      d: "setNodeMarkup (doc tr) pos (u2 (attrsOf n)) = Some d" and tr': "tr' = tr\<lparr>doc := d\<rparr>"
      by (auto simp: cellCommand_def split: option.splits)
    from findParent_markupAt[OF Some[unfolded r]] have m: "markupAt (doc tr) pos = Some (TableCell, attrsOf n)" .
    with markupAt_setNodeMarkup[OF d, of pos] have "markupAt d pos = Some (TableCell, u2 (attrsOf n))" by simp
    with m p tr' TextSelection show ?thesis by simp
  qed
qed

lemma cellCommand_target_isCell:
  assumes "wfSelection (doc tr) (selection tr)" and "p \<in> set (targetCells tr)"
    and "markupAt (doc tr) p = Some (t, a)"
  shows "isCell t"
proof (cases "selection tr")
  case (CellSelection f ps)
  with assms(1,2) have "cellAt (doc tr) p" by (simp add: targetCells_def list_all_iff)
  with assms(3) show ?thesis by (simp add: cellAt_def typeAt_def)
next
  case (TextSelection f)
  show ?thesis
  proof (cases "findParentNodeOfType TableCell (doc tr) 0 f")
    case None
    with assms(2) TextSelection show ?thesis by (simp add: targetCells_def)
  next
    case (Some r)
    obtain pos n where r: "r = (pos, n)" by (cases r)
    from assms(2) TextSelection Some r have "p = pos" by (simp add: targetCells_def)
    with findParent_markupAt[OF Some[unfolded r]] assms(3) show ?thesis by (simp add: isCell_def)
  qed
qed

lemma runCommand_exempt:
  assumes "runCommand c tr = Inr (r, tr')" and "markupAt (doc tr) p = Some (t, a)"
    and "isCell t" and "highlight a"
  shows "markupAt (doc tr') p = Some (t, a)"
proof (cases c)
  case (SetDefaultTableBorder v)
  with assms(1) have "defaultAttr (\<lambda>a. a\<lparr>border := v\<rparr>) tr = Inr (r, tr')" by (simp add: defaultBorder_def)
  from defaultAttr_exempt[OF this assms(2-4)] show ?thesis .
next
  case (SetDefaultTableBorderColor v)
  with assms(1) have "defaultAttr (\<lambda>a. a\<lparr>borderColor := v\<rparr>) tr = Inr (r, tr')" by (simp add: defaultBorderColor_def)
  from defaultAttr_exempt[OF this assms(2-4)] show ?thesis .
next
  case (SetDefaultTableBackgroundColor v)
  with assms(1) have "defaultAttr (\<lambda>a. a\<lparr>background := v\<rparr>) tr = Inr (r, tr')" by (simp add: defaultBackgroundColor_def)
  from defaultAttr_exempt[OF this assms(2-4)] show ?thesis .
next
  case ApplyAlternateColor
  with assms(1) have "alternateColor' tr = Inr (r, tr')" by simp
  from alternateColor_exempt[OF this assms(2-4)] show ?thesis .
qed

lemma runCommands_exempt:
  "markupAt (doc tr) p = Some (t, a) \<Longrightarrow> isCell t \<Longrightarrow> highlight a \<Longrightarrow>
   markupAt (doc (runCommands cmds tr)) p = Some (t, a)"
proof (induction cmds arbitrary: tr)
  case Nil
  then show ?case by simp
next
  case (Cons x cmds)
  obtain s c where x: "x = (s, c)" by (cases x)
  show ?case
  proof (cases "runCommand c (tr\<lparr>selection := s\<rparr>)")
    case (Inl e)
    with Cons x show ?thesis by simp
  next
    case (Inr y)
    obtain b tr' where y: "y = (b, tr')" by (cases y)
    have "markupAt (doc (tr\<lparr>selection := s\<rparr>)) p = Some (t, a)" using Cons.prems(1) by simp
    from runCommand_exempt[OF Inr[unfolded y] this Cons.prems(2,3)]
    have "markupAt (doc tr') p = Some (t, a)" .
    from Cons.IH[OF this Cons.prems(2,3)] Inr y x show ?thesis by simp
  qed
qed

lemma runCommand_default:
  "c \<noteq> ApplyAlternateColor \<Longrightarrow> runCommand c tr = defaultAttr (writeDefault c) tr"
proof (cases c)
  case (SetDefaultTableBorder v)
  have "writeDefault (SetDefaultTableBorder v) = (\<lambda>a. a\<lparr>border := v\<rparr>)" by (rule ext) simp
  with SetDefaultTableBorder show ?thesis by (simp add: defaultBorder_def)
next
  case (SetDefaultTableBorderColor v)
  have "writeDefault (SetDefaultTableBorderColor v) = (\<lambda>a. a\<lparr>borderColor := v\<rparr>)" by (rule ext) simp
  with SetDefaultTableBorderColor show ?thesis by (simp add: defaultBorderColor_def)
next
  case (SetDefaultTableBackgroundColor v)
  have "writeDefault (SetDefaultTableBackgroundColor v) = (\<lambda>a. a\<lparr>background := v\<rparr>)" by (rule ext) simp
  with SetDefaultTableBackgroundColor show ?thesis by (simp add: defaultBackgroundColor_def)
next
  case ApplyAlternateColor
  assume "c \<noteq> ApplyAlternateColor"
  with ApplyAlternateColor show ?thesis by simp
qed

lemma markupAt_nodeAt: "markupAt d p = Some (t, a) \<Longrightarrow> \<exists>cs. nodeAt d p = Some (Node t a cs)"
  by (auto simp: markupAt_def split: option.splits node.splits)

lemma cellMarkup_succeeds:
  assumes "cellAt sd p" and "erase d = erase sd"
  shows "\<exists>d'. cellMarkup upd sd d p = Inr d'"
proof -
  from assms(1) obtain t a where m: "markupAt sd p = Some (t, a)"
    by (auto simp: cellAt_def typeAt_def split: option.splits)
  from markupAt_nodeAt[OF m] obtain cs where n: "nodeAt sd p = Some (Node t a cs)" ..
  from markupAt_same_shape[OF assms(2) m] obtain a' where "markupAt d p = Some (t, a')" ..
  from setNodeMarkup_Some[OF this, of "upd a"] obtain d' where "setNodeMarkup d p (upd a) = Some d'" ..
  with n show ?thesis by simp
qed

lemma forEachM_cellMarkup_succeeds:
  "list_all (cellAt sd) ps \<Longrightarrow> erase d = erase sd \<Longrightarrow>
   \<exists>d'. forEachM (cellMarkup upd sd) d ps = Inr d'"
proof (induction ps arbitrary: d)
  case Nil
  then show ?case by simp
next
  case (Cons x ps)
  from Cons.prems(1) have x: "cellAt sd x" and rest: "list_all (cellAt sd) ps" by simp_all
  from cellMarkup_succeeds[OF x Cons.prems(2), of upd] obtain d1
    where d1: "cellMarkup upd sd d x = Inr d1" ..
  from d1 obtain t a where "setNodeMarkup d x (upd a) = Some d1" by (rule cellMarkup_Inr)
  from erase_setNodeMarkup[OF this] Cons.prems(2) have "erase d1 = erase sd" by simp
  from Cons.IH[OF rest this] obtain d' where "forEachM (cellMarkup upd sd) d1 ps = Inr d'" ..
  with d1 show ?case by (simp del: cellMarkup.simps)
qed

lemma cellCommand_succeeds:
  assumes "wfSelection (doc tr) (selection tr)" and "p \<in> set (targetCells tr)"
  shows "\<exists>tr'. cellCommand u1 u2 tr = Inr (True, tr')"
proof (cases "selection tr")
  case (CellSelection f ps)
  with assms(1) have "list_all (cellAt (doc tr)) ps" by simp
  from forEachM_cellMarkup_succeeds[OF this refl, of u1] obtain d
    where "forEachM (cellMarkup u1 (doc tr)) (doc tr) ps = Inr d" ..
  with CellSelection show ?thesis by (simp add: cellCommand_def)
next
  case (TextSelection f)
  show ?thesis
  proof (cases "findParentNodeOfType TableCell (doc tr) 0 f")
    case None
    with assms(2) TextSelection show ?thesis by (simp add: targetCells_def)
  next
    case (Some r)
    obtain pos n where r: "r = (pos, n)" by (cases r)
    from findParent_markupAt[OF Some[unfolded r]]
    have "markupAt (doc tr) pos = Some (TableCell, attrsOf n)" .
    from setNodeMarkup_Some[OF this, of "u2 (attrsOf n)"] obtain d
      where "setNodeMarkup (doc tr) pos (u2 (attrsOf n)) = Some d" ..
    with TextSelection Some r show ?thesis by (simp add: cellCommand_def)
  qed
qed

section \<open>Properties\<close>

subsection \<open>Merging or splitting, and repairing\<close>

text \<open>
  Claim C10. \<^verbatim>\<open>toggleTableCellMerge\<close> returns false whenever \<^verbatim>\<open>mergeCells\<close>
  succeeds, and what \<^verbatim>\<open>mergeCells\<close> dispatched stays dispatched; only when
  \<^verbatim>\<open>mergeCells\<close> does not apply does it return the result of \<^verbatim>\<open>splitCell\<close>.
\<close>

theorem toggleMergeCell_result:
  "(fst (mergeCells st) \<longrightarrow>
      toggleMergeCellCommand mergeCells splitCell st = (False, snd (mergeCells st))) \<and>
   (\<not> fst (mergeCells st) \<longrightarrow>
      toggleMergeCellCommand mergeCells splitCell st =
        (fst (splitCell st), snd (mergeCells st) @ snd (splitCell st)))"
  by (cases "mergeCells st"; cases "splitCell st") (auto simp: toggleMergeCellCommand_def)

theorem toggleMergeCell_result_witness:
  "toggleMergeCellCommand (\<lambda>st. (True, [inOneCell])) (\<lambda>st. (True, []))
       \<lparr>sdoc = [oneCellTable], sselection = TextSelection 4\<rparr>
     = (False, [inOneCell]) \<and>
   toggleMergeCellCommand (\<lambda>st. (False, [])) (\<lambda>st. (True, [inOneCell]))
       \<lparr>sdoc = [oneCellTable], sselection = TextSelection 4\<rparr>
     = (True, [inOneCell])"
  using toggleMergeCell_result[of "\<lambda>st. (True, [inOneCell])"
      "\<lparr>sdoc = [oneCellTable], sselection = TextSelection 4\<rparr>" "\<lambda>st. (True, [])"]
    toggleMergeCell_result[of "\<lambda>st. (False, [])"
      "\<lparr>sdoc = [oneCellTable], sselection = TextSelection 4\<rparr>" "\<lambda>st. (True, [inOneCell])"]
  by simp

text \<open>
  Claim C8. \<^verbatim>\<open>fixTable\<close> returns false exactly when the library computes no
  corrective transaction, and then nothing is dispatched: the editor is unchanged,
  and a second call returns false again on the same editor.
\<close>

theorem fixTable_false_iff_nothing_to_fix:
  "(fst (fixTable fixTables ed) = False \<longleftrightarrow> fixTables (state ed) (lastGoodState ed) = None) \<and>
   (fixTables (state ed) (lastGoodState ed) = None \<longrightarrow>
      fixTable fixTables ed = (False, ed) \<and>
      fixTable fixTables (snd (fixTable fixTables ed)) = (False, ed))"
  by (cases "fixTables (state ed) (lastGoodState ed)")
     (auto simp: fixTable_def fixTablesCommand_def)

theorem fixTable_false_iff_nothing_to_fix_witness:
  "fixTable (\<lambda>st old. None)
       \<lparr>state = \<lparr>sdoc = [oneCellTable], sselection = TextSelection 4\<rparr>, lastGoodState = None\<rparr>
     = (False, \<lparr>state = \<lparr>sdoc = [oneCellTable], sselection = TextSelection 4\<rparr>, lastGoodState = None\<rparr>) \<and>
   fst (fixTable (\<lambda>st old. Some inOneCell)
       \<lparr>state = \<lparr>sdoc = [para], sselection = TextSelection 1\<rparr>, lastGoodState = None\<rparr>)"
  using fixTable_false_iff_nothing_to_fix[of "\<lambda>st old. None"
      "\<lparr>state = \<lparr>sdoc = [oneCellTable], sselection = TextSelection 4\<rparr>, lastGoodState = None\<rparr>"]
    fixTable_false_iff_nothing_to_fix[of "\<lambda>st old. Some inOneCell"
      "\<lparr>state = \<lparr>sdoc = [para], sselection = TextSelection 1\<rparr>, lastGoodState = None\<rparr>"]
  by simp


subsection \<open>Highlighted cells and table-wide defaults\<close>

text \<open>
  Claim C9. On a cell selection, or with the cursor inside a cell,
  \<^verbatim>\<open>setTableCellBackground\<close> returns true, and every cell it rewrites (the cells of
  the cell selection, or the closest cell around the cursor) gets the new background
  and \<open>highlight = true\<close>; no later session of table-wide default and alternation
  commands, under any selections, changes any attribute of such a cell.
\<close>

theorem setTableCellBackground_exempts:
  assumes "wfSelection (doc tr) (selection tr)"
    and "p \<in> set (targetCells tr)"
  shows "\<exists>tr1. setTableCellBackground bg tr = Inr (True, tr1) \<and>
     (\<exists>a. attrsAt (doc tr1) p = Some a \<and> background a = bg \<and> highlight a) \<and>
     (\<forall>cmds. attrsAt (doc (runCommands cmds tr1)) p = attrsAt (doc tr1) p)"
proof -
  let ?u = "\<lambda>a. a\<lparr>background := bg, highlight := True\<rparr>"
  from cellCommand_succeeds[OF assms, of ?u ?u] obtain tr1
    where c: "cellCommand ?u ?u tr = Inr (True, tr1)" ..
  then have run: "setTableCellBackground bg tr = Inr (True, tr1)"
    by (simp add: setTableCellBackground_def)
  from cellCommand_target[OF c assms(2)] obtain t a where
    m0: "markupAt (doc tr) p = Some (t, a)" and m1: "markupAt (doc tr1) p = Some (t, ?u a)"
    by (cases "selection tr") auto
  from cellCommand_target_isCell[OF assms m0] have cell: "isCell t" .
  have "\<And>cmds. markupAt (doc (runCommands cmds tr1)) p = Some (t, ?u a)"
    by (rule runCommands_exempt[OF m1 cell]) simp
  with m1 have "(\<exists>a. attrsAt (doc tr1) p = Some a \<and> background a = bg \<and> highlight a) \<and>
     (\<forall>cmds. attrsAt (doc (runCommands cmds tr1)) p = attrsAt (doc tr1) p)"
    by (simp add: attrsAt_def)
  with run show ?thesis by blast
qed

theorem setTableCellBackground_exempts_witness:
  "setTableCellBackground (Some ''#ffff00'') twoCells
     = Inr (True, dispatchedBy (setTableCellBackground (Some ''#ffff00'')) twoCells) \<and>
   map_option background (attrsAt (doc (dispatchedBy (setTableCellBackground (Some ''#ffff00'')) twoCells)) 7)
     = Some (Some ''#ffff00'') \<and>
   map_option highlight (attrsAt (doc (dispatchedBy (setTableCellBackground (Some ''#ffff00'')) twoCells)) 7)
     = Some True \<and>
   attrsAt (doc (runCommands
       [(TextSelection 4, SetDefaultTableBackgroundColor (Some ''#ffffff'')),
        (TextSelection 4, SetDefaultTableBorder (Some ''2px solid'')),
        (TextSelection 4, ApplyAlternateColor)]
       (dispatchedBy (setTableCellBackground (Some ''#ffff00'')) twoCells))) 7
     = attrsAt (doc (dispatchedBy (setTableCellBackground (Some ''#ffff00'')) twoCells)) 7 \<and>
   setTableCellBackground (Some ''#00ff00'') (twoCells\<lparr>selection := CellSelection 8 [7, 2]\<rparr>)
     = Inr (True, dispatchedBy (setTableCellBackground (Some ''#00ff00''))
                    (twoCells\<lparr>selection := CellSelection 8 [7, 2]\<rparr>)) \<and>
   map_option background (attrsAt (doc (dispatchedBy (setTableCellBackground (Some ''#00ff00''))
       (twoCells\<lparr>selection := CellSelection 8 [7, 2]\<rparr>))) 2) = Some (Some ''#00ff00'') \<and>
   map_option highlight (attrsAt (doc (dispatchedBy (setTableCellBackground (Some ''#00ff00''))
       (twoCells\<lparr>selection := CellSelection 8 [7, 2]\<rparr>))) 2) = Some True \<and>
   attrsAt (doc (runCommands
       [(TextSelection 4, SetDefaultTableBackgroundColor (Some ''#ffffff'')),
        (TextSelection 9, ApplyAlternateColor)]
       (dispatchedBy (setTableCellBackground (Some ''#00ff00''))
          (twoCells\<lparr>selection := CellSelection 8 [7, 2]\<rparr>)))) 2
     = attrsAt (doc (dispatchedBy (setTableCellBackground (Some ''#00ff00''))
          (twoCells\<lparr>selection := CellSelection 8 [7, 2]\<rparr>))) 2"
proof -
  let ?c = "setTableCellBackground (Some ''#ffff00'')"
  let ?g = "setTableCellBackground (Some ''#00ff00'')"
  let ?range = "twoCells\<lparr>selection := CellSelection 8 [7, 2]\<rparr>"
  have wf: "wfSelection (doc twoCells) (selection twoCells)" by code_simp
  have mem: "7 \<in> set (targetCells twoCells)" by code_simp
  from setTableCellBackground_exempts[OF wf mem, of "Some ''#ffff00''"] obtain tr1 where
    run: "?c twoCells = Inr (True, tr1)"
    and got: "\<exists>a. attrsAt (doc tr1) 7 = Some a \<and> background a = Some ''#ffff00'' \<and> highlight a"
    and later: "\<And>cmds. attrsAt (doc (runCommands cmds tr1)) 7 = attrsAt (doc tr1) 7"
    by blast
  from run have d: "dispatchedBy ?c twoCells = tr1" by (simp add: dispatchedBy_def)
  have wf': "wfSelection (doc ?range) (selection ?range)" by code_simp
  have mem': "2 \<in> set (targetCells ?range)" by code_simp
  from setTableCellBackground_exempts[OF wf' mem', of "Some ''#00ff00''"] obtain tr2 where
    run': "?g ?range = Inr (True, tr2)"
    and got': "\<exists>a. attrsAt (doc tr2) 2 = Some a \<and> background a = Some ''#00ff00'' \<and> highlight a"
    and later': "\<And>cmds. attrsAt (doc (runCommands cmds tr2)) 2 = attrsAt (doc tr2) 2"
    by blast
  from run' have d': "dispatchedBy ?g ?range = tr2" by (simp add: dispatchedBy_def)
  from got obtain a where a: "attrsAt (doc tr1) 7 = Some a" "background a = Some ''#ffff00''" "highlight a"
    by blast
  from got' obtain a' where a': "attrsAt (doc tr2) 2 = Some a'" "background a' = Some ''#00ff00''" "highlight a'"
    by blast
  show ?thesis unfolding d d' using run run' a a' by (simp only: later later') simp
qed

text \<open>
  Claim C1, as amended. After \<^verbatim>\<open>highlightSelection\<close> on the cells \<open>S\<close>, a later
  call of a table-wide default command with the selection inside a table returns
  true and leaves every attribute of every cell of \<open>S\<close> as it was, whatever
  table-wide commands ran in between; and it writes its attribute on every cell
  inside that table whose highlight flag is false, provided no table nested in that
  table starts before the selection.
\<close>

theorem highlight_exemption:
  assumes wf: "wfSelection (doc tr) (selection tr)"
    and hl: "highlightSelection b bc tr = Inr (True, tr1)"
    and c: "c \<noteq> ApplyAlternateColor"
    and f: "findParentNodeOfType Table (doc (runCommands cmds tr1)) 0 (selFrom s) = Some (q, A)"
    and nonest: "noTableBefore (selFrom s) A q"
  shows "\<exists>tr2. runCommand c ((runCommands cmds tr1)\<lparr>selection := s\<rparr>) = Inr (True, tr2) \<and>
     (\<forall>p \<in> set (targetCells tr).
        (\<exists>a. attrsAt (doc tr1) p = Some a \<and> border a = b \<and> borderColor a = bc \<and> highlight a) \<and>
        attrsAt (doc tr2) p = attrsAt (doc tr1) p) \<and>
     (\<forall>t a cs r. (Node t a cs, r) \<in> set (descendants (contentOf A) (q + 1)) \<and> isCell t \<and> \<not> highlight a
        \<longrightarrow> attrsAt (doc tr2) r = Some (writeDefault c a))"
proof -
  let ?trs = "(runCommands cmds tr1)\<lparr>selection := s\<rparr>"
  let ?u = "\<lambda>a. a\<lparr>border := b, borderColor := bc, highlight := True\<rparr>"
  have f': "findParentNodeOfType Table (doc ?trs) 0 (selFrom (selection ?trs)) = Some (q, A)"
    using f by simp
  from defaultAttr_succeeds[OF f', of "writeDefault c"] obtain tr2
    where d: "defaultAttr (writeDefault c) ?trs = Inr (True, tr2)" by blast
  have run: "runCommand c ?trs = Inr (True, tr2)" using d runCommand_default[OF c] by simp
  have exempt: "(\<exists>a. attrsAt (doc tr1) p = Some a \<and> border a = b \<and> borderColor a = bc \<and> highlight a) \<and>
        attrsAt (doc tr2) p = attrsAt (doc tr1) p" if p: "p \<in> set (targetCells tr)" for p
  proof -
    from hl have cc: "cellCommand ?u ?u tr = Inr (True, tr1)" by (simp add: highlightSelection_def)
    from cellCommand_target[OF cc p] obtain t a where
      m0: "markupAt (doc tr) p = Some (t, a)" and m1: "markupAt (doc tr1) p = Some (t, ?u a)"
      by (cases "selection tr") auto
    from cellCommand_target_isCell[OF wf p m0] have cell: "isCell t" .
    have "markupAt (doc (runCommands cmds tr1)) p = Some (t, ?u a)"
      by (rule runCommands_exempt[OF m1 cell]) simp
    then have "markupAt (doc ?trs) p = Some (t, ?u a)" by simp
    from runCommand_exempt[OF run this cell] have "markupAt (doc tr2) p = Some (t, ?u a)" by simp
    with m1 show ?thesis by (simp add: attrsAt_def)
  qed
  have cover: "attrsAt (doc tr2) r = Some (writeDefault c a)"
    if h: "(Node t a cs, r) \<in> set (descendants (contentOf A) (q + 1)) \<and> isCell t \<and> \<not> highlight a"
    for t a cs r
  proof (rule defaultAttr_cover[OF f' d])
    show "(Node t a cs, r) \<in> set (descendants (contentOf A) (q + 1))" "isCell t" "\<not> highlight a"
      using h by simp_all
    show "\<forall>t' a' cs' r'. (Node t' a' cs', r') \<in> set (descendants (contentOf A) (q + 1)) \<longrightarrow>
        t' = Table \<longrightarrow> selFrom (selection ?trs) \<le> r'"
    proof (intro allI impI)
      fix t' a' cs' r'
      assume "(Node t' a' cs', r') \<in> set (descendants (contentOf A) (q + 1))" and "t' = Table"
      with nonest show "selFrom (selection ?trs) \<le> r'"
        by (auto simp: noTableBefore_def list_all_iff)
    qed
  qed
  from run exempt cover show ?thesis by blast
qed

theorem highlight_exemption_witness:
  "attrsAt (doc (dispatchedBy (runCommand (SetDefaultTableBorder (Some ''1px dotted'')))
       (threeByThreeHighlighted\<lparr>selection := TextSelection 4\<rparr>))) 24
     = Some (defaultAttrs\<lparr>border := Some ''4px dashed'', borderColor := Some ''red'', highlight := True\<rparr>) \<and>
   attrsAt (doc (dispatchedBy (runCommand (SetDefaultTableBorder (Some ''1px dotted'')))
       (threeByThreeHighlighted\<lparr>selection := TextSelection 4\<rparr>))) 2
     = Some (defaultAttrs\<lparr>border := Some ''1px dotted''\<rparr>)"
proof -
  let ?c = "SetDefaultTableBorder (Some ''1px dotted'')"
  let ?A = "hd (doc threeByThreeHighlighted)"
  have wf: "wfSelection (doc threeByThreeBordered) (selection threeByThreeBordered)" by code_simp
  have hl: "highlightSelection (Some ''4px dashed'') (Some ''red'') threeByThreeBordered
      = Inr (True, threeByThreeHighlighted)" by code_simp
  have c: "?c \<noteq> ApplyAlternateColor" by simp
  have f: "findParentNodeOfType Table (doc (runCommands [] threeByThreeHighlighted)) 0
      (selFrom (TextSelection 4)) = Some (0, ?A)" by code_simp
  have nonest: "noTableBefore (selFrom (TextSelection 4)) ?A 0" by code_simp
  have mem: "24 \<in> set (targetCells threeByThreeBordered)" by code_simp
  have before: "attrsAt (doc threeByThreeHighlighted) 24
     = Some (defaultAttrs\<lparr>border := Some ''4px dashed'', borderColor := Some ''red'', highlight := True\<rparr>)"
    by code_simp
  have cell: "(Node TableCell (defaultAttrs\<lparr>border := Some ''2px solid''\<rparr>) [para], 2)
      \<in> set (descendants (contentOf ?A) (0 + 1))" by code_simp
  from highlight_exemption[OF wf hl c f nonest] obtain tr2 where
    run: "runCommand ?c ((runCommands [] threeByThreeHighlighted)\<lparr>selection := TextSelection 4\<rparr>) = Inr (True, tr2)"
    and ex: "\<forall>p \<in> set (targetCells threeByThreeBordered). attrsAt (doc tr2) p = attrsAt (doc threeByThreeHighlighted) p"
    and cov: "\<forall>t a cs r. (Node t a cs, r) \<in> set (descendants (contentOf ?A) (0 + 1)) \<and> isCell t \<and> \<not> highlight a
        \<longrightarrow> attrsAt (doc tr2) r = Some (writeDefault ?c a)"
    by blast
  from run have d: "dispatchedBy (runCommand ?c) (threeByThreeHighlighted\<lparr>selection := TextSelection 4\<rparr>) = tr2"
    by (simp add: dispatchedBy_def)
  from ex mem before have a: "attrsAt (doc tr2) 24
     = Some (defaultAttrs\<lparr>border := Some ''4px dashed'', borderColor := Some ''red'', highlight := True\<rparr>)"
    by simp
  have "isCell TableCell \<and> \<not> highlight (defaultAttrs\<lparr>border := Some ''2px solid''\<rparr>)"
    by (simp add: isCell_def defaultAttrs_def)
  with cov[rule_format, of TableCell "defaultAttrs\<lparr>border := Some ''2px solid''\<rparr>" "[para]" 2] cell
  have "attrsAt (doc tr2) 2 = Some (writeDefault ?c (defaultAttrs\<lparr>border := Some ''2px solid''\<rparr>))"
    by blast
  then have b: "attrsAt (doc tr2) 2 = Some (defaultAttrs\<lparr>border := Some ''1px dotted''\<rparr>)"
    by (simp add: defaultAttrs_def)
  from a b show ?thesis unfolding d by simp
qed

text \<open>
  Claim C1 as stated fails: a cell outside \<open>S\<close> that was given a background of
  its own is highlighted too, and the default border passes it by. In the table of
  two cells, the cell at 7 got its background first; then the cell at 2 is
  highlighted (\<open>S\<close> is that one cell) and the default border is set: the cell at 7,
  of the same table and outside \<open>S\<close>, keeps its border \<^verbatim>\<open>null\<close>.
\<close>

theorem highlight_exemption_counterexample:
  "targetCells twoCellsColoured = [2] \<and>
   highlightSelection (Some ''4px dashed'') (Some ''red'') twoCellsColoured
     = Inr (True, twoCellsHighlighted) \<and>
   defaultBorder (Some ''1px dotted'') twoCellsHighlighted
     = Inr (True, dispatchedBy (defaultBorder (Some ''1px dotted'')) twoCellsHighlighted) \<and>
   typeAt (doc twoCellsHighlighted) 7 = Some TableCell \<and>
   findParentNodeOfType Table (doc twoCellsHighlighted) 0 7 = Some (0, hd (doc twoCellsHighlighted)) \<and>
   map_option border (attrsAt (doc (dispatchedBy (defaultBorder (Some ''1px dotted'')) twoCellsHighlighted)) 7)
     = Some None"
  by code_simp

text \<open>
  Claim C2, at a selection outside every table: each of the three functions throws
  the \<^verbatim>\<open>TypeError\<close> of \<^verbatim>\<open>found.pos\<close> on \<^verbatim>\<open>undefined\<close>; none returns false.
\<close>

theorem setDefault_outside_table_throws:
  "defaultBorder v outsideTable = Inl TypeError \<and>
   defaultBorderColor v outsideTable = Inl TypeError \<and>
   defaultBackgroundColor v outsideTable = Inl TypeError"
  by (simp add: defaultBorder_def defaultBorderColor_def defaultBackgroundColor_def
      defaultAttr_def outsideTable_def para_def)

text \<open>
  Claim C3, at the cursor inside one highlighted cell: \<^verbatim>\<open>removeHighlightSelection\<close>
  returns true and clears the flag, but the cell keeps its border and its border
  colour; on a cell selection of the same cell both are reset to \<^verbatim>\<open>null\<close>.
\<close>

theorem removeHighlight_single_cell_keeps_border:
  "removeHighlightSelection highlightedCell =
     Inr (True, highlightedCell\<lparr>doc :=
       [Node Table defaultAttrs [Node TableRow defaultAttrs
          [Node TableCell (highlightedAttrs\<lparr>highlight := False\<rparr>) [para]]]]\<rparr>) \<and>
   border (highlightedAttrs\<lparr>highlight := False\<rparr>) = Some ''4px dashed'' \<and>
   borderColor (highlightedAttrs\<lparr>highlight := False\<rparr>) = Some ''red'' \<and>
   removeHighlightSelection (highlightedCell\<lparr>selection := CellSelection 3 [2]\<rparr>) =
     Inr (True, highlightedCell\<lparr>selection := CellSelection 3 [2], doc :=
       [Node Table defaultAttrs [Node TableRow defaultAttrs
          [Node TableCell (highlightedAttrs\<lparr>border := None, borderColor := None, highlight := False\<rparr>) [para]]]]\<rparr>)"
  by (simp add: removeHighlightSelection_def cellCommand_def highlightedCell_def para_def
      highlightedAttrs_def)

text \<open>
  Claim C4, at two sibling tables inside a cell of an outer table, the cursor in the
  second one (A, at 12): the enclosing table found is A, and setting the default
  border rewrites the cell (at 5) of the first one (B, at 3). With the same two
  tables at the top of the document, B's cell (at 2) is left as it is.
\<close>

theorem setDefault_rewrites_sibling_in_outer_table:
  "findParentNodeOfType Table (doc siblingsInCell) 0 16 = Some (12, oneCellTable) \<and>
   typeAt (doc siblingsInCell) 3 = Some Table \<and>
   map_option border (attrsAt (doc siblingsInCell) 5) = Some None \<and>
   defaultBorder (Some ''1px'') siblingsInCell =
     Inr (True, dispatchedBy (defaultBorder (Some ''1px'')) siblingsInCell) \<and>
   typeAt (doc (dispatchedBy (defaultBorder (Some ''1px'')) siblingsInCell)) 5 = Some TableCell \<and>
   map_option border (attrsAt (doc (dispatchedBy (defaultBorder (Some ''1px'')) siblingsInCell)) 5)
     = Some (Some ''1px'') \<and>
   findParentNodeOfType Table (doc siblingsAtTop) 0 13 = Some (9, oneCellTable) \<and>
   map (\<lambda>p. map_option border (attrsAt (doc (dispatchedBy (defaultBorder (Some ''1px'')) siblingsAtTop)) p))
       [2, 11]
     = [Some None, Some (Some ''1px'')]"
  by code_simp

text \<open>
  Claim C7, at a table of four rows with no highlighted cell, whose first row holds
  a nested table: the nested row is counted, so that rows 1, 2 and 4 get the
  banding colour and row 3 the string \<^verbatim>\<open>"null"\<close>. With no nested table, rows 1
  and 3 get the banding colour and rows 2 and 4 the string.
\<close>

theorem alternateColor_counts_nested_rows:
  "alternateColor' fourRows = Inr (True, dispatchedBy alternateColor' fourRows) \<and>
   map (\<lambda>p. map_option highlight (attrsAt (doc fourRows) p)) [2, 7, 10, 20, 25, 32, 37, 44, 49]
     = [Some False, Some False, Some False, Some False, Some False, Some False, Some False, Some False, Some False] \<and>
   map (\<lambda>p. map_option background (attrsAt (doc (dispatchedBy alternateColor' fourRows)) p))
       [2, 7, 20, 25, 32, 37, 44, 49]
     = [Some (Some ''#E6E6E6''), Some (Some ''#E6E6E6''),
        Some (Some ''#E6E6E6''), Some (Some ''#E6E6E6''),
        Some (Some ''null''), Some (Some ''null''),
        Some (Some ''#E6E6E6''), Some (Some ''#E6E6E6'')] \<and>
   map (\<lambda>p. map_option background (attrsAt (doc (dispatchedBy alternateColor' fourPlainRows)) p))
       [2, 7, 14, 19, 26, 31, 38, 43]
     = [Some (Some ''#E6E6E6''), Some (Some ''#E6E6E6''),
        Some (Some ''null''), Some (Some ''null''),
        Some (Some ''#E6E6E6''), Some (Some ''#E6E6E6''),
        Some (Some ''null''), Some (Some ''null'')]"
  by code_simp

subsection \<open>Inserting a column or a row\<close>

text \<open>
  Claim C5, at a table of one column and the target column 0: no row has a cell
  spanning the boundary, and \<^verbatim>\<open>addColumn\<close> inserts no cell; it reads
  \<^verbatim>\<open>map.map[-1]\<close> for the reference cell and throws. So does \<^verbatim>\<open>addRow\<close> at
  the target row 0 of a table of one row.
\<close>

theorem addColumn_one_column_throws:
  "arrayGet (map' (rmap oneCellRect)) (- 1) = None \<and>
   addColumn inOneCell oneCellRect 0 = Inl RangeError \<and>
   addRow inOneCell oneCellRect 0 = Inl RangeError"
  by code_simp

text \<open>
  Claim C6, at a table with the default border \<^verbatim>\<open>2px solid\<close> whose first cell holds
  a nested table, the cursor in the second cell: the cell that \<^verbatim>\<open>addColumn\<close>
  inserts after it (at 18), and the cells of the row that \<^verbatim>\<open>addRow\<close> inserts
  below it (at 20 and 24), end with the border \<^verbatim>\<open>null\<close>.
\<close>

theorem inserted_cells_without_default:
  "border (attrsOf (table borderedRect)) = Some ''2px solid'' \<and>
   typeAt (doc inBordered) 18 = None \<and>
   (case addColumn inBordered borderedRect 2 of
      Inl e \<Rightarrow> False
    | Inr tr \<Rightarrow> typeAt (doc tr) 18 = Some TableCell \<and>
        map_option border (attrsAt (doc tr) 18) = Some None) \<and>
   (case addRow inBordered borderedRect 1 of
      Inl e \<Rightarrow> False
    | Inr tr \<Rightarrow> typeAt (doc tr) 19 = Some TableRow \<and>
        map (typeAt (doc tr)) [20, 24] = [Some TableCell, Some TableCell] \<and>
        map (\<lambda>p. map_option border (attrsAt (doc tr) p)) [20, 24] = [Some None, Some None])"
  by code_simp

end
